theory Spec2Isabelle
  imports Main "HOL-Library.Sublist"
begin

chapter \<open>The embedding of \<^verbatim>\<open>app.py\<close>\<close>

section \<open>Text\<close>

text \<open>
  A Python \<^verbatim>\<open>str\<close> is modelled as a \<open>string\<close>: a list of characters with code points
  0 to 255. On that range the predicates below are Python's: \<open>is_space\<close> is
  \<^verbatim>\<open>str.isspace\<close> (the characters \<^verbatim>\<open>str.strip()\<close> removes and \<^verbatim>\<open>\s\<close> matches),
  \<open>is_digit\<close> is what \<^verbatim>\<open>\d\<close> matches and \<open>is_word\<close> what \<^verbatim>\<open>\w\<close> matches
  (alphanumeric or the underscore). A character range of a pattern is written out as the
  list of its characters.
\<close>

definition ascii_upper :: string where
  "ascii_upper = ''ABCDEFGHIJKLMNOPQRSTUVWXYZ''"

definition ascii_lower :: string where
  "ascii_lower = ''abcdefghijklmnopqrstuvwxyz''"

definition ascii_digits :: string where
  "ascii_digits = ''0123456789''"

definition latin1_alnum :: string where
  "latin1_alnum =
    [CHR 0xAA, CHR 0xB2, CHR 0xB3, CHR 0xB5, CHR 0xB9, CHR 0xBA, CHR 0xBC, CHR 0xBD, CHR 0xBE,
     CHR 0xC0, CHR 0xC1, CHR 0xC2, CHR 0xC3, CHR 0xC4, CHR 0xC5, CHR 0xC6, CHR 0xC7,
     CHR 0xC8, CHR 0xC9, CHR 0xCA, CHR 0xCB, CHR 0xCC, CHR 0xCD, CHR 0xCE, CHR 0xCF,
     CHR 0xD0, CHR 0xD1, CHR 0xD2, CHR 0xD3, CHR 0xD4, CHR 0xD5, CHR 0xD6,
     CHR 0xD8, CHR 0xD9, CHR 0xDA, CHR 0xDB, CHR 0xDC, CHR 0xDD, CHR 0xDE, CHR 0xDF,
     CHR 0xE0, CHR 0xE1, CHR 0xE2, CHR 0xE3, CHR 0xE4, CHR 0xE5, CHR 0xE6, CHR 0xE7,
     CHR 0xE8, CHR 0xE9, CHR 0xEA, CHR 0xEB, CHR 0xEC, CHR 0xED, CHR 0xEE, CHR 0xEF,
     CHR 0xF0, CHR 0xF1, CHR 0xF2, CHR 0xF3, CHR 0xF4, CHR 0xF5, CHR 0xF6,
     CHR 0xF8, CHR 0xF9, CHR 0xFA, CHR 0xFB, CHR 0xFC, CHR 0xFD, CHR 0xFE, CHR 0xFF]"

definition is_space :: "char \<Rightarrow> bool" where
  "is_space c \<longleftrightarrow>
     c \<in> set [CHR 0x09, CHR 0x0A, CHR 0x0B, CHR 0x0C, CHR 0x0D,
                CHR 0x1C, CHR 0x1D, CHR 0x1E, CHR 0x1F, CHR 0x20, CHR 0x85, CHR 0xA0]"

definition is_digit :: "char \<Rightarrow> bool" where
  "is_digit c \<longleftrightarrow> c \<in> set ascii_digits"

definition is_word :: "char \<Rightarrow> bool" where
  "is_word c \<longleftrightarrow>
     c \<in> set ascii_digits \<or> c \<in> set ascii_upper \<or> c \<in> set ascii_lower \<or> c = CHR ''_'' \<or>
     c \<in> set latin1_alnum"

text \<open>
  Case folding, as \<^verbatim>\<open>re.IGNORECASE\<close> needs it for the patterns of this program, whose
  letters are all ASCII: no other character below 256 has an ASCII letter as its lower or
  upper case.
\<close>

definition to_lower :: "char \<Rightarrow> char" where
  "to_lower c = (case map_of (zip ascii_upper ascii_lower) c of Some l \<Rightarrow> l | None \<Rightarrow> c)"

definition to_upper :: "char \<Rightarrow> char" where
  "to_upper c = (case map_of (zip ascii_lower ascii_upper) c of Some u \<Rightarrow> u | None \<Rightarrow> c)"

text \<open>\<^verbatim>\<open>s.strip()\<close>, \<^verbatim>\<open>sub in s\<close> and \<^verbatim>\<open>sep.join(parts)\<close>.\<close>

definition strip :: "string \<Rightarrow> string" where
  "strip s = rev (dropWhile is_space (rev (dropWhile is_space s)))"

fun contains :: "string \<Rightarrow> string \<Rightarrow> bool" where
  "contains sub [] = (sub = [])"
| "contains sub (c # cs) = (prefix sub (c # cs) \<or> contains sub cs)"

fun py_join :: "string \<Rightarrow> string list \<Rightarrow> string" where
  "py_join sep [] = []"
| "py_join sep [x] = x"
| "py_join sep (x # y # ys) = x @ sep @ py_join sep (y # ys)"

section \<open>Regular expressions\<close>

text \<open>
  The patterns of the program use literals, character classes, the escapes
  \<^verbatim>\<open>\d \s \w \b\<close>, greedy repetition of a single character class, alternation and one
  capturing group. \<open>Atom cls\<close> matches one character of the class \<open>cls\<close> (a literal is the
  class of that one character); \<open>Rep m n cls\<close> is the greedy repetition \<^verbatim>\<open>{m,n}\<close> of a
  class (\<open>n = None\<close>: unbounded, so \<^verbatim>\<open>*\<close> is \<open>Rep 0 None\<close> and \<^verbatim>\<open>+\<close> is \<open>Rep 1 None\<close>).

  The matcher is the backtracking matcher of Python's \<^verbatim>\<open>re\<close>: \<open>ms ic r st\<close> lists, in
  the order in which backtracking tries them, the states in which a match of \<open>r\<close> started in
  state \<open>st\<close> can end. A state is the character before the current position (for
  \<^verbatim>\<open>\b\<close>), the rest of the text and the groups captured so far. \<open>ic\<close> is the flag
  \<^verbatim>\<open>re.IGNORECASE\<close>.
\<close>

datatype citem = Chars string | Digit | Space | Word

datatype regex =
    Atom "citem list"
  | Rep nat "nat option" "citem list"
  | Boundary
  | Eps
  | Cat regex regex
  | Alt regex regex
  | Group nat regex

fun item_has :: "bool \<Rightarrow> citem \<Rightarrow> char \<Rightarrow> bool" where
  "item_has ic (Chars cs) c =
     (c \<in> set cs \<or> (ic \<and> (to_lower c \<in> set cs \<or> to_upper c \<in> set cs)))"
| "item_has ic Digit c = is_digit c"
| "item_has ic Space c = is_space c"
| "item_has ic Word c = is_word c"

definition class_has :: "bool \<Rightarrow> citem list \<Rightarrow> char \<Rightarrow> bool" where
  "class_has ic cls c = list_ex (\<lambda>i. item_has ic i c) cls"

text \<open>
  Greedy repetition of a class: one more character is tried first, stopping here second
  (allowed once the lower bound is reached).
\<close>

fun rep :: "(char \<Rightarrow> bool) \<Rightarrow> nat \<Rightarrow> nat option \<Rightarrow> char option \<Rightarrow> string
    \<Rightarrow> (char option \<times> string) list" where
  "rep p lo hi prev [] = (if lo = 0 then [(prev, [])] else [])"
| "rep p lo hi prev (c # cs) =
     (if p c \<and> hi \<noteq> Some 0
      then rep p (lo - 1) (map_option (\<lambda>h. h - 1) hi) (Some c) cs else [])
     @ (if lo = 0 then [(prev, c # cs)] else [])"

definition at_boundary :: "char option \<Rightarrow> string \<Rightarrow> bool" where
  "at_boundary prev rest \<longleftrightarrow>
     (case prev of None \<Rightarrow> False | Some a \<Rightarrow> is_word a) \<noteq>
     (case rest of [] \<Rightarrow> False | b # _ \<Rightarrow> is_word b)"

type_synonym mstate = "char option \<times> string \<times> (nat \<times> string) list"

fun ms :: "bool \<Rightarrow> regex \<Rightarrow> mstate \<Rightarrow> mstate list" where
  "ms ic (Atom cls) (prev, rest, caps) =
     (case rest of
        [] \<Rightarrow> []
      | c # cs \<Rightarrow> if class_has ic cls c then [(Some c, cs, caps)] else [])"
| "ms ic (Rep lo hi cls) (prev, rest, caps) =
     map (\<lambda>(p, r). (p, r, caps)) (rep (class_has ic cls) lo hi prev rest)"
| "ms ic Boundary (prev, rest, caps) =
     (if at_boundary prev rest then [(prev, rest, caps)] else [])"
| "ms ic Eps st = [st]"
| "ms ic (Cat a b) st = concat (map (ms ic b) (ms ic a st))"
| "ms ic (Alt a b) st = ms ic a st @ ms ic b st"
| "ms ic (Group n a) (prev, rest, caps) =
     map (\<lambda>(p, r, cps). (p, r, (n, take (length rest - length r) rest) # cps))
       (ms ic a (prev, rest, caps))"

text \<open>
  A match object: the text before the match, the matched text (\<^verbatim>\<open>m.group(0)\<close>), the
  text from \<^verbatim>\<open>m.end()\<close> on, and the groups.
\<close>

record re_match =
  pre :: string
  whole :: string
  post :: string
  groups :: "(nat \<times> string) list"

text \<open>
  \<^verbatim>\<open>re.search\<close>: the start positions are tried from left to right; at each one the
  first way to match wins.
\<close>

fun search_from :: "bool \<Rightarrow> regex \<Rightarrow> string \<Rightarrow> char option \<Rightarrow> string \<Rightarrow> re_match option" where
  "search_from ic r seen prev rest =
     (case ms ic r (prev, rest, []) of
        (p, rest', caps) # _ \<Rightarrow>
          Some \<lparr>pre = seen, whole = take (length rest - length rest') rest,
                post = rest', groups = caps\<rparr>
      | [] \<Rightarrow>
          (case rest of
             [] \<Rightarrow> None
           | c # cs \<Rightarrow> search_from ic r (seen @ [c]) (Some c) cs))"

definition re_search :: "bool \<Rightarrow> regex \<Rightarrow> string \<Rightarrow> re_match option" where
  "re_search ic r s = search_from ic r [] None s"

definition last_char :: "char option \<Rightarrow> string \<Rightarrow> char option" where
  "last_char prev s = (if s = [] then prev else Some (last s))"

text \<open>
  \<^verbatim>\<open>re.findall\<close> for a pattern without groups: the matched texts of the successive
  non-overlapping matches, each search resuming where the previous match ended. None of the
  patterns given to \<^verbatim>\<open>findall\<close> in this program matches the empty string; after an
  empty match the model moves on by one character.
\<close>

function findall_from :: "bool \<Rightarrow> regex \<Rightarrow> char option \<Rightarrow> string \<Rightarrow> string list" where
  "findall_from ic r prev rest =
     (case search_from ic r [] prev rest of
        None \<Rightarrow> []
      | Some m \<Rightarrow>
          whole m #
          (if length (post m) < length rest
           then findall_from ic r (last_char prev (pre m @ whole m)) (post m)
           else (case rest of
                   [] \<Rightarrow> []
                 | c # cs \<Rightarrow> findall_from ic r (Some c) cs)))"
  by pat_completeness auto
termination
  by (relation "measure (\<lambda>(ic, r, prev, rest). length rest)") auto

declare findall_from.simps [simp del]

definition re_findall :: "bool \<Rightarrow> regex \<Rightarrow> string \<Rightarrow> string list" where
  "re_findall ic r s = findall_from ic r None s"

text \<open>Writing patterns: a literal string, and a sequence of parts.\<close>

definition re_lit :: "string \<Rightarrow> regex" where
  "re_lit s = foldr (\<lambda>c r. Cat (Atom [Chars [c]]) r) s Eps"

definition re_seq :: "regex list \<Rightarrow> regex" where
  "re_seq rs = foldr Cat rs Eps"

section \<open>Data model\<close>

text \<open>
  A calendar date (\<^verbatim>\<open>datetime.date\<close>) is represented by its proleptic Gregorian day
  number (\<^verbatim>\<open>date.toordinal()\<close>); adding \<^verbatim>\<open>timedelta(days=1)\<close> is adding one to
  the day number and two dates are equal when their day numbers are. Python's dates stop at
  9999-12-31; the day numbers of the model do not.
\<close>

type_synonym date = int

text \<open>
  The dictionary that \<^verbatim>\<open>extract_cases_from_soup\<close> appends for one table row, with
  its four keys \<^verbatim>\<open>serial\<close>, \<^verbatim>\<open>cols\<close>, \<^verbatim>\<open>court_name\<close> and
  \<^verbatim>\<open>next_hearing_date\<close> (\<^verbatim>\<open>None\<close> or a date).
\<close>

record case_row =
  serial :: string
  cols :: "string list"
  court_name :: string
  next_hearing_date :: "date option"

section \<open>Dates in a table row\<close>

text \<open>
  \<^verbatim>\<open>python-dateutil\<close> is a library outside the repository. It is a parameter of the
  model: \<open>None\<close> when the import failed (\<^verbatim>\<open>DATEUTIL_AVAILABLE\<close> is false), otherwise
  the function that maps the flag \<^verbatim>\<open>dayfirst\<close> and a text to the date of
  \<^verbatim>\<open>dateparser.parse(text, dayfirst=...).date()\<close>, or to \<open>None\<close> when that call raises.
  \<^verbatim>\<open>
  def parse_date_nullable(text):
      if not DATEUTIL_AVAILABLE:
          return None
      try:
          return dateparser.parse(text, dayfirst=True).date()
      except Exception:
          return None
  \<close>
\<close>

type_synonym dateutil = "(bool \<Rightarrow> string \<Rightarrow> date option) option"

definition parse_date_nullable :: "dateutil \<Rightarrow> string \<Rightarrow> date option" where
  "parse_date_nullable du s =
     (case du of
        None \<Rightarrow> None
      | Some dateparser_parse \<Rightarrow> dateparser_parse True s)"

text \<open>
  \<^verbatim>\<open>(Next\s+Hearing\s+Date|Next\s+Date|Next\s+Hearing|NextDate)[:\-\s]*\<close>, compiled
  with \<^verbatim>\<open>re.IGNORECASE\<close>.
\<close>

definition DATE_LABEL_REGEX :: regex where
  "DATE_LABEL_REGEX =
     Cat (Group 1
           (Alt (re_seq [re_lit ''Next'', Rep 1 None [Space], re_lit ''Hearing'',
                         Rep 1 None [Space], re_lit ''Date''])
           (Alt (re_seq [re_lit ''Next'', Rep 1 None [Space], re_lit ''Date''])
           (Alt (re_seq [re_lit ''Next'', Rep 1 None [Space], re_lit ''Hearing''])
                (re_lit ''NextDate'')))))
         (Rep 0 None [Chars '':-'', Space])"

text \<open>\<^verbatim>\<open>\d{1,2}[\/\-\.]\d{1,2}[\/\-\.]\d{2,4}\<close>\<close>

definition DMY_REGEX :: regex where
  "DMY_REGEX =
     re_seq [Rep 1 (Some 2) [Digit], Atom [Chars ''/-.''], Rep 1 (Some 2) [Digit],
             Atom [Chars ''/-.''], Rep 2 (Some 4) [Digit]]"

text \<open>\<^verbatim>\<open>\d{1,2}\s+\w+\s+\d{4}\<close>\<close>

definition D_MONTH_Y_REGEX :: regex where
  "D_MONTH_Y_REGEX =
     re_seq [Rep 1 (Some 2) [Digit], Rep 1 None [Space], Rep 1 None [Word],
             Rep 1 None [Space], Rep 4 (Some 4) [Digit]]"

text \<open>
  Lines 336 to 348 of \<^verbatim>\<open>extract_cases_from_soup\<close>, for one row text:
  \<^verbatim>\<open>
  next_hearing_date = None
  m = DATE_LABEL_REGEX.search(row_text)
  if m:
      after = row_text[m.end():].strip()
      token = re.findall(r"\d{1,2}[\/\-\.]\d{1,2}[\/\-\.]\d{2,4}|\d{1,2}\s+\w+\s+\d{4}", after)
      if token:
          next_hearing_date = parse_date_nullable(token[0])
  if not next_hearing_date:
      token = re.findall(r"\d{1,2}[\/\-\.]\d{1,2}[\/\-\.]\d{2,4}", row_text)
      if token and "Next" in row_text:
          next_hearing_date = parse_date_nullable(token[0])
  \<close>
  A match object and a date are always truthy, so both \<^verbatim>\<open>if\<close> tests are tests for
  \<^verbatim>\<open>None\<close>.
\<close>

definition row_hearing_date :: "dateutil \<Rightarrow> string \<Rightarrow> date option" where
  "row_hearing_date du row_text =
     (let next_hearing_date =
        (case re_search True DATE_LABEL_REGEX row_text of
           None \<Rightarrow> None
         | Some m \<Rightarrow>
             (let after = strip (post m);
                  token = re_findall False (Alt DMY_REGEX D_MONTH_Y_REGEX) after
              in case token of
                   [] \<Rightarrow> None
                 | t # _ \<Rightarrow> parse_date_nullable du t))
      in case next_hearing_date of
           Some d \<Rightarrow> Some d
         | None \<Rightarrow>
             (let token = re_findall False DMY_REGEX row_text
              in case token of
                   [] \<Rightarrow> None
                 | t # _ \<Rightarrow>
                     if contains ''Next'' row_text then parse_date_nullable du t else None))"

section \<open>Parsed pages\<close>

text \<open>
  A page parsed by BeautifulSoup is a tree of tags (name, attributes, children) and of the
  strings that \<^verbatim>\<open>get_text\<close> collects. The soup object is the root tag of the tree.
  \<open>descendants\<close> lists what is below a node in document order; \<open>find_all\<close> and
  \<open>soup_find\<close> are \<^verbatim>\<open>find_all(names)\<close> and \<^verbatim>\<open>find(names)\<close>;
  \<open>get_text sep n\<close> is \<^verbatim>\<open>n.get_text(sep, strip=True)\<close>: every string below
  \<open>n\<close> is stripped, the empty ones are dropped and the others are joined by \<open>sep\<close>.
\<close>

datatype node = Tag string "(string \<times> string) list" "node list" | NavigableString string

fun descendants :: "node \<Rightarrow> node list" where
  "descendants (NavigableString s) = []"
| "descendants (Tag name attrs children) = concat (map (\<lambda>c. c # descendants c) children)"

fun tag_named :: "string list \<Rightarrow> node \<Rightarrow> bool" where
  "tag_named names (Tag name attrs children) = (name \<in> set names)"
| "tag_named names (NavigableString s) = False"

definition find_all :: "string list \<Rightarrow> node \<Rightarrow> node list" where
  "find_all names n = filter (tag_named names) (descendants n)"

definition soup_find :: "string list \<Rightarrow> node \<Rightarrow> node option" where
  "soup_find names n = (case find_all names n of [] \<Rightarrow> None | t # _ \<Rightarrow> Some t)"

fun strings_of :: "node list \<Rightarrow> string list" where
  "strings_of [] = []"
| "strings_of (NavigableString s # ns) = s # strings_of ns"
| "strings_of (Tag name attrs children # ns) = strings_of ns"

definition get_text :: "string \<Rightarrow> node \<Rightarrow> string" where
  "get_text sep n = py_join sep (filter (\<lambda>s. s \<noteq> []) (map strip (strings_of (descendants n))))"

section \<open>Rows of a listing page: \<^verbatim>\<open>extract_cases_from_soup\<close>\<close>

text \<open>
  \<^verbatim>\<open>
  for tr in rows[1:]:  # Skip header row
      cols = [c.get_text(" ", strip=True) for c in tr.find_all(["td", "th"])]
      if not cols:
          continue
      serial = cols[0] if cols else ""
      row_text = tr.get_text(" ", strip=True)
      ... (the hearing date, above)
      cases.append({"serial": serial.strip(), "cols": cols,
                    "court_name": court_name, "next_hearing_date": next_hearing_date})
  \<close>
\<close>

fun rows_loop :: "dateutil \<Rightarrow> string \<Rightarrow> node list \<Rightarrow> case_row list \<Rightarrow> case_row list" where
  "rows_loop du court [] cases = cases"
| "rows_loop du court (tr # trs) cases =
     (let cs = map (get_text '' '') (find_all [''td'', ''th''] tr)
      in if cs = [] then rows_loop du court trs cases
         else
           (let serial0 = (case cs of c0 # _ \<Rightarrow> c0 | [] \<Rightarrow> []);
                row_text = get_text '' '' tr;
                nhd = row_hearing_date du row_text
            in rows_loop du court trs
                 (cases @ [\<lparr>serial = strip serial0, cols = cs, court_name = court,
                            next_hearing_date = nhd\<rparr>])))"

text \<open>
  \<^verbatim>\<open>
  cases = []
  table = soup_obj.find("table")
  if not table:
      return cases
  rows = table.find_all("tr")
  h = soup_obj.find(["h1", "h2", "h3"])
  court_name = h.get_text(strip=True) if h else "Unknown Court"
  \<close>
  A tag is always truthy, so \<^verbatim>\<open>not table\<close> and \<^verbatim>\<open>if h\<close> test for \<^verbatim>\<open>None\<close>.
  The function is only called with a soup object, which exists only when BeautifulSoup was
  imported (\<^verbatim>\<open>BEAUTIFULSOUP_AVAILABLE\<close>).
\<close>

definition extract_cases_from_soup :: "dateutil \<Rightarrow> node \<Rightarrow> case_row list" where
  "extract_cases_from_soup du soup_obj =
     (case soup_find [''table''] soup_obj of
        None \<Rightarrow> []
      | Some table \<Rightarrow>
          (let rows = find_all [''tr''] table;
               h = soup_find [''h1'', ''h2'', ''h3''] soup_obj;
               court = (case h of Some hd_tag \<Rightarrow> get_text [] hd_tag | None \<Rightarrow> ''Unknown Court'')
           in rows_loop du court (drop 1 rows) []))"

section \<open>Fields of a detail page: \<^verbatim>\<open>extract_case_details\<close>\<close>

text \<open>
  \<^verbatim>\<open>\b([A-Z0-9]{16})\s*\(Note the CNR number\<close> (searched with \<^verbatim>\<open>re.IGNORECASE\<close>),
  \<^verbatim>\<open>\b[A-Z0-9]{16}\b\<close> (searched without flags) and, for a key \<open>k\<close>,
  \<^verbatim>\<open>k[:\-\s]*([A-Za-z0-9\/\.\-\s]+)\<close> (compiled with \<^verbatim>\<open>re.IGNORECASE\<close>). The keys
  of the program consist of letters and spaces, which are literals of a pattern.
\<close>

definition CNR_NOTE_REGEX :: regex where
  "CNR_NOTE_REGEX =
     re_seq [Boundary, Group 1 (Rep 16 (Some 16) [Chars ascii_upper, Chars ascii_digits]),
             Rep 0 None [Space], re_lit ''(Note the CNR number'']"

definition CNR_FALLBACK_REGEX :: regex where
  "CNR_FALLBACK_REGEX =
     re_seq [Boundary, Rep 16 (Some 16) [Chars ascii_upper, Chars ascii_digits], Boundary]"

definition field_regex :: "string \<Rightarrow> regex" where
  "field_regex k =
     re_seq [re_lit k, Rep 0 None [Chars '':-'', Space],
             Group 1 (Rep 1 None [Chars ascii_upper, Chars ascii_lower, Chars ascii_digits,
                                  Chars ''/.-'', Space])]"

text \<open>
  \<^verbatim>\<open>m.group(n)\<close>. In each pattern above group 1 takes part in every match, so the
  result is never \<^verbatim>\<open>None\<close> where the program strips it.
\<close>

definition group :: "re_match \<Rightarrow> nat \<Rightarrow> string option" where
  "group m n = (if n = 0 then Some (whole m) else map_of (groups m) n)"

text \<open>The dictionary \<^verbatim>\<open>details\<close>, in insertion order, with \<^verbatim>\<open>d[k] = v\<close> and \<^verbatim>\<open>d.get(k)\<close>.\<close>

type_synonym details = "(string \<times> string option) list"

fun dict_set :: "('k \<times> 'v) list \<Rightarrow> 'k \<Rightarrow> 'v \<Rightarrow> ('k \<times> 'v) list" where
  "dict_set [] k v = [(k, v)]"
| "dict_set ((k', v') # d) k v = (if k' = k then (k, v) # d else (k', v') # dict_set d k v)"

definition dict_get :: "('k \<times> 'v option) list \<Rightarrow> 'k \<Rightarrow> 'v option" where
  "dict_get d k = (case map_of d k of Some v \<Rightarrow> v | None \<Rightarrow> None)"

definition details_init :: details where
  "details_init =
     [(''CNR Number'', None), (''Case Type'', None), (''Court Number and Judge'', None),
      (''Filing Number'', None), (''Registration Number'', None)]"

text \<open>
  \<^verbatim>\<open>
  cnr_match = re.search(r'\b([A-Z0-9]{16})\s*\(Note the CNR number', text, re.IGNORECASE)
  if cnr_match:
      details["CNR Number"] = cnr_match.group(1).strip()
  else:
      fallback = re.search(r'\b[A-Z0-9]{16}\b', text)
      if fallback:
          details["CNR Number"] = fallback.group(0).strip()
  \<close>
\<close>

definition extract_cnr :: "string \<Rightarrow> details \<Rightarrow> details" where
  "extract_cnr s details =
     (case re_search True CNR_NOTE_REGEX s of
        Some cnr_match \<Rightarrow> dict_set details ''CNR Number'' (map_option strip (group cnr_match 1))
      | None \<Rightarrow>
          (case re_search False CNR_FALLBACK_REGEX s of
             Some fallback \<Rightarrow> dict_set details ''CNR Number'' (map_option strip (group fallback 0))
           | None \<Rightarrow> details))"

text \<open>
  \<^verbatim>\<open>
  for key in [k for k in details.keys() if k != "CNR Number"]:
      pattern = re.compile(rf"{key}[:\-\s]*([A-Za-z0-9\/\.\-\s]+)", re.IGNORECASE)
      m = pattern.search(text)
      if m:
          details[key] = m.group(1).strip()
  \<close>
\<close>

fun fields_loop :: "string \<Rightarrow> string list \<Rightarrow> details \<Rightarrow> details" where
  "fields_loop s [] details = details"
| "fields_loop s (k # ks) details =
     (case re_search True (field_regex k) s of
        Some m \<Rightarrow> fields_loop s ks (dict_set details k (map_option strip (group m 1)))
      | None \<Rightarrow> fields_loop s ks details)"

definition details_of_text :: "string \<Rightarrow> details" where
  "details_of_text s =
     (let details = extract_cnr s details_init
      in fields_loop s (filter (\<lambda>k. k \<noteq> ''CNR Number'') (map fst details)) details)"

text \<open>
  \<^verbatim>\<open>
  soup = BeautifulSoup(driver.page_source, "html.parser")
  text = soup.get_text(" ", strip=True)
  \<close>
\<close>

definition extract_case_details_of_soup :: "node \<Rightarrow> details" where
  "extract_case_details_of_soup soup = details_of_text (get_text '' '' soup)"

section \<open>The hearing-date filter of \<^verbatim>\<open>process_scraping\<close>\<close>

text \<open>
  \<^verbatim>\<open>
  today = datetime.date.today()
  tomorrow = today + datetime.timedelta(days=1)
  matches = []
  for c in all_cases:
      listed = c.get("next_hearing_date")
      if listed and (listed == today or listed == tomorrow):
          matches.append(c)
  \<close>
  The loop is \<open>filter_loop\<close>, with the list \<^verbatim>\<open>matches\<close> as its accumulator. A date
  object is always truthy, so \<^verbatim>\<open>if listed\<close> tests for \<^verbatim>\<open>None\<close>.
\<close>

fun filter_loop :: "date \<Rightarrow> date \<Rightarrow> case_row list \<Rightarrow> case_row list \<Rightarrow> case_row list" where
  "filter_loop today tomorrow [] matches = matches"
| "filter_loop today tomorrow (c # all_cases) matches =
     (case next_hearing_date c of
        None \<Rightarrow> filter_loop today tomorrow all_cases matches
      | Some listed \<Rightarrow>
          if listed = today \<or> listed = tomorrow
          then filter_loop today tomorrow all_cases (matches @ [c])
          else filter_loop today tomorrow all_cases matches)"

definition hearing_date_filter :: "date \<Rightarrow> case_row list \<Rightarrow> case_row list" where
  "hearing_date_filter today all_cases =
     (let tomorrow = today + 1 in filter_loop today tomorrow all_cases [])"

section \<open>The browser and the other collaborators\<close>

text \<open>
  Selenium, the network, the clock and \<^verbatim>\<open>python-dateutil\<close> are outside the repository.
  The model takes them as one parameter \<open>W\<close>, a record of functions over a type \<open>'d\<close> of
  browser session states and a type \<open>'e\<close> of element handles. A call that can raise
  returns an option, \<open>None\<close> standing for any exception (the handlers of the program do not
  tell exceptions apart); a call that changes the page returns the new session state, and a
  call that raises leaves the session as it was. Reading \<^verbatim>\<open>driver.page_source\<close> and
  \<^verbatim>\<open>driver.current_url\<close> of a session is taken to succeed. \<^verbatim>\<open>time.sleep\<close> and the
  Streamlit status messages have no counterpart in the model.

  \<^item> \<open>find_element\<close>, \<open>find_elements\<close>: \<^verbatim>\<open>driver.find_element(by, value)\<close>,
    \<^verbatim>\<open>driver.find_elements(by, value)\<close>;
  \<^item> \<open>element_find_element\<close>, \<open>element_find_elements\<close>: the same below an element;
  \<^item> \<open>element_text\<close>, \<open>is_enabled\<close>: \<^verbatim>\<open>element.text\<close>, \<^verbatim>\<open>element.is_enabled()\<close>;
  \<^item> \<open>element_click\<close>, \<open>element_clear\<close>, \<open>send_keys\<close>: \<^verbatim>\<open>element.click()\<close>,
    \<^verbatim>\<open>element.clear()\<close>, \<^verbatim>\<open>element.send_keys(text)\<close>;
  \<^item> \<open>script_click\<close>: \<^verbatim>\<open>driver.execute_script("arguments[0].click();", element)\<close>;
  \<^item> \<open>history_back\<close>: \<^verbatim>\<open>driver.back()\<close>; \<open>driver_get\<close>: \<^verbatim>\<open>driver.get(url)\<close>;
  \<^item> \<open>page_soup\<close>: \<^verbatim>\<open>BeautifulSoup(driver.page_source, "html.parser")\<close>;
  \<^item> \<open>print_to_pdf\<close>: whether \<^verbatim>\<open>save_fullpage_pdf(driver, path)\<close> returns \<^verbatim>\<open>True\<close>
    (the CDP command \<^verbatim>\<open>Page.printToPDF\<close> and the write of the file both succeed);
  \<^item> \<open>captcha_image\<close>: whether \<^verbatim>\<open>save_captcha_image(driver, path)\<close> returns a path;
  \<^item> \<open>new_chrome\<close>: \<^verbatim>\<open>webdriver.Chrome(options=chrome_options)\<close> followed by
    \<^verbatim>\<open>implicitly_wait(10)\<close>, the state of the new session;
  \<^item> \<open>download_file\<close>: \<^verbatim>\<open>download_file(url)\<close>, the local path or \<^verbatim>\<open>None\<close>;
  \<^item> \<open>urljoin\<close>: \<^verbatim>\<open>urllib.parse.urljoin\<close>; \<open>dateutil\<close>: the date parser;
    \<open>date_today\<close>: \<^verbatim>\<open>datetime.date.today()\<close>.
\<close>

datatype locator = XPATH string | LINK_TEXT string | TAG_NAME string

record ('d, 'e) world =
  find_element :: "'d \<Rightarrow> locator \<Rightarrow> 'e option"
  find_elements :: "'d \<Rightarrow> locator \<Rightarrow> 'e list option"
  element_find_element :: "'d \<Rightarrow> 'e \<Rightarrow> locator \<Rightarrow> 'e option"
  element_find_elements :: "'d \<Rightarrow> 'e \<Rightarrow> locator \<Rightarrow> 'e list option"
  element_text :: "'d \<Rightarrow> 'e \<Rightarrow> string option"
  is_enabled :: "'d \<Rightarrow> 'e \<Rightarrow> bool option"
  element_click :: "'d \<Rightarrow> 'e \<Rightarrow> 'd option"
  element_clear :: "'d \<Rightarrow> 'e \<Rightarrow> 'd option"
  send_keys :: "'d \<Rightarrow> 'e \<Rightarrow> string \<Rightarrow> 'd option"
  script_click :: "'d \<Rightarrow> 'e \<Rightarrow> 'd option"
  history_back :: "'d \<Rightarrow> 'd option"
  driver_get :: "'d \<Rightarrow> string \<Rightarrow> 'd option"
  page_soup :: "'d \<Rightarrow> node"
  current_url :: "'d \<Rightarrow> string"
  print_to_pdf :: "'d \<Rightarrow> string \<Rightarrow> bool"
  captcha_image :: "'d \<Rightarrow> string \<Rightarrow> bool"
  new_chrome :: "'d option"
  download_file :: "string \<Rightarrow> string option"
  urljoin :: "string \<Rightarrow> string \<Rightarrow> string"
  dateutil :: dateutil
  date_today :: date

definition apostrophe :: string where
  "apostrophe = [CHR 0x27]"

section \<open>Locators\<close>

subsection \<open>\<^verbatim>\<open>find_and_click_view_button\<close>\<close>

definition VIEW_LINKS :: string where
  "VIEW_LINKS = ''//a[contains(., 'View') or contains(., 'VIEW')]''"

definition VIEW_LINKS_IN_ROW :: string where
  "VIEW_LINKS_IN_ROW = ''.//a[contains(., 'View') or contains(., 'VIEW')]''"

definition serial_cell :: "string \<Rightarrow> string" where
  "serial_cell serial_number = ''//td[contains(., '' @ apostrophe @ serial_number @ apostrophe @ '')]''"

text \<open>
  Strategy 1, the loop over the links of the page whose text contains View:
  \<^verbatim>\<open>
  for link in view_links:
      try:
          row = link.find_element(By.XPATH, "./ancestor::tr[1]")
          if serial_number in row.text:
              driver.execute_script("arguments[0].click();", link)
              time.sleep(3)
              return True
      except:
          continue
  \<close>
  The result is the session after the click when the loop returned \<^verbatim>\<open>True\<close>, and
  \<open>None\<close> when the loop ended without returning.
\<close>

fun view_links_loop :: "('d, 'e) world \<Rightarrow> 'd \<Rightarrow> string \<Rightarrow> 'e list \<Rightarrow> 'd option" where
  "view_links_loop W d serial_number [] = None"
| "view_links_loop W d serial_number (link # links) =
     (case element_find_element W d link (XPATH ''./ancestor::tr[1]'') of
        None \<Rightarrow> view_links_loop W d serial_number links
      | Some row \<Rightarrow>
          (case element_text W d row of
             None \<Rightarrow> view_links_loop W d serial_number links
           | Some row_text \<Rightarrow>
               if contains serial_number row_text
               then (case script_click W d link of
                       None \<Rightarrow> view_links_loop W d serial_number links
                     | Some d' \<Rightarrow> Some d')
               else view_links_loop W d serial_number links))"

text \<open>
  Strategy 2:
  \<^verbatim>\<open>
  try:
      serial_element = driver.find_element(By.XPATH, f"//td[contains(., '{serial_number}')]")
      row = serial_element.find_element(By.XPATH, "./..")
      view_links_in_row = row.find_elements(By.XPATH, ".//a[contains(., 'View') or contains(., 'VIEW')]")
      if view_links_in_row:
          driver.execute_script("arguments[0].click();", view_links_in_row[0])
          time.sleep(3)
          return True
  except:
      pass
  \<close>
\<close>

definition view_in_serial_row :: "('d, 'e) world \<Rightarrow> 'd \<Rightarrow> string \<Rightarrow> 'd option" where
  "view_in_serial_row W d serial_number =
     (case find_element W d (XPATH (serial_cell serial_number)) of
        None \<Rightarrow> None
      | Some serial_element \<Rightarrow>
          (case element_find_element W d serial_element (XPATH ''./..'') of
             None \<Rightarrow> None
           | Some row \<Rightarrow>
               (case element_find_elements W d row (XPATH VIEW_LINKS_IN_ROW) of
                  None \<Rightarrow> None
                | Some [] \<Rightarrow> None
                | Some (link # _) \<Rightarrow> script_click W d link)))"

text \<open>
  Strategy 3:
  \<^verbatim>\<open>
  try:
      serial_element = driver.find_element(By.XPATH, f"//td[contains(., '{serial_number}')]")
      row = serial_element.find_element(By.XPATH, "./..")
      all_links = row.find_elements(By.TAG_NAME, "a")
      if all_links:
          for link in all_links:
              if link.text.strip():
                  driver.execute_script("arguments[0].click();", link)
                  time.sleep(3)
                  return True
  except:
      pass
  \<close>
  An exception inside the loop leaves the loop and the strategy.
\<close>

fun any_link_loop :: "('d, 'e) world \<Rightarrow> 'd \<Rightarrow> 'e list \<Rightarrow> 'd option" where
  "any_link_loop W d [] = None"
| "any_link_loop W d (link # links) =
     (case element_text W d link of
        None \<Rightarrow> None
      | Some link_text \<Rightarrow>
          if strip link_text \<noteq> [] then script_click W d link
          else any_link_loop W d links)"

definition any_link_in_serial_row :: "('d, 'e) world \<Rightarrow> 'd \<Rightarrow> string \<Rightarrow> 'd option" where
  "any_link_in_serial_row W d serial_number =
     (case find_element W d (XPATH (serial_cell serial_number)) of
        None \<Rightarrow> None
      | Some serial_element \<Rightarrow>
          (case element_find_element W d serial_element (XPATH ''./..'') of
             None \<Rightarrow> None
           | Some row \<Rightarrow>
               (case element_find_elements W d row (TAG_NAME ''a'') of
                  None \<Rightarrow> None
                | Some all_links \<Rightarrow> any_link_loop W d all_links)))"

text \<open>
  The function: the three strategies in order, inside a \<^verbatim>\<open>try\<close> whose handler returns
  \<^verbatim>\<open>False\<close> (reached when \<^verbatim>\<open>driver.find_elements\<close> raises). The result is the
  returned flag and the session after the call.
\<close>

definition find_and_click_view_button :: "('d, 'e) world \<Rightarrow> 'd \<Rightarrow> string \<Rightarrow> bool \<times> 'd" where
  "find_and_click_view_button W d serial_number =
     (case find_elements W d (XPATH VIEW_LINKS) of
        None \<Rightarrow> (False, d)
      | Some view_links \<Rightarrow>
          (case view_links_loop W d serial_number view_links of
             Some d' \<Rightarrow> (True, d')
           | None \<Rightarrow>
               (case view_in_serial_row W d serial_number of
                  Some d' \<Rightarrow> (True, d')
                | None \<Rightarrow>
                    (case any_link_in_serial_row W d serial_number of
                       Some d' \<Rightarrow> (True, d')
                     | None \<Rightarrow> (False, d)))))"

subsection \<open>\<^verbatim>\<open>click_back_button\<close>\<close>

definition back_selectors :: "string list" where
  "back_selectors =
     [''//a[contains(., 'Back')]'',
      ''//button[contains(., 'Back')]'',
      ''//input[@value='Back']'',
      ''//a[contains(@href, 'javascript:history.back()')]'',
      ''//a[contains(@onclick, 'back')]'']"

text \<open>
  \<^verbatim>\<open>
  for selector in back_selectors:
      try:
          back_btn = driver.find_element(By.XPATH, selector)
          driver.execute_script("arguments[0].click();", back_btn)
          time.sleep(2)
          return True
      except:
          continue
  # If no back button found, use browser back
  driver.back()
  time.sleep(2)
  return True
  \<close>
  all of it inside a \<^verbatim>\<open>try\<close> whose handler returns \<^verbatim>\<open>False\<close>.
\<close>

fun back_selectors_loop :: "('d, 'e) world \<Rightarrow> 'd \<Rightarrow> string list \<Rightarrow> 'd option" where
  "back_selectors_loop W d [] = None"
| "back_selectors_loop W d (selector # selectors) =
     (case find_element W d (XPATH selector) of
        None \<Rightarrow> back_selectors_loop W d selectors
      | Some back_btn \<Rightarrow>
          (case script_click W d back_btn of
             None \<Rightarrow> back_selectors_loop W d selectors
           | Some d' \<Rightarrow> Some d'))"

definition click_back_button :: "('d, 'e) world \<Rightarrow> 'd \<Rightarrow> bool \<times> 'd" where
  "click_back_button W d =
     (case back_selectors_loop W d back_selectors of
        Some d' \<Rightarrow> (True, d')
      | None \<Rightarrow>
          (case history_back W d of
             Some d' \<Rightarrow> (True, d')
           | None \<Rightarrow> (False, d)))"

section \<open>The paginator of \<^verbatim>\<open>process_scraping\<close>\<close>

definition max_pages :: nat where
  "max_pages = 10"

definition NEXT_LINK :: string where
  "NEXT_LINK = ''//a[contains(@class,'next') or contains(@aria-label,'Next')]''"

text \<open>
  The first \<^verbatim>\<open>try\<close> block of the loop body:
  \<^verbatim>\<open>
  try:
      next_btn = driver.find_element(By.LINK_TEXT, "Next")
      if next_btn.is_enabled():
          next_btn.click()
          page_index += 1
          time.sleep(1.5)
          continue
  except:
      ...
  break
  \<close>
  It ends with the click done (\<^verbatim>\<open>continue\<close>), with the link found and not enabled
  (the \<^verbatim>\<open>break\<close> after the block), or with an exception (the handler).
\<close>

datatype 'd next_try = Clicked 'd | Not_Enabled | Excepted

definition next_by_link_text :: "('d, 'e) world \<Rightarrow> 'd \<Rightarrow> 'd next_try" where
  "next_by_link_text W d =
     (case find_element W d (LINK_TEXT ''Next'') of
        None \<Rightarrow> Excepted
      | Some next_btn \<Rightarrow>
          (case is_enabled W d next_btn of
             None \<Rightarrow> Excepted
           | Some enabled \<Rightarrow>
               if enabled
               then (case element_click W d next_btn of
                       None \<Rightarrow> Excepted
                     | Some d' \<Rightarrow> Clicked d')
               else Not_Enabled))"

text \<open>
  The handler:
  \<^verbatim>\<open>
  try:
      next_btn = driver.find_element(By.XPATH, "//a[contains(@class,'next') or contains(@aria-label,'Next')]")
      next_btn.click()
      page_index += 1
      time.sleep(1.5)
      continue
  except:
      break
  \<close>
\<close>

definition next_by_xpath :: "('d, 'e) world \<Rightarrow> 'd \<Rightarrow> 'd option" where
  "next_by_xpath W d =
     (case find_element W d (XPATH NEXT_LINK) of
        None \<Rightarrow> None
      | Some next_btn \<Rightarrow> element_click W d next_btn)"

text \<open>
  The loop
  \<^verbatim>\<open>
  all_cases = []
  page_index = 1
  max_pages = 10  # Safety limit
  while page_index <= max_pages:
      soup = BeautifulSoup(driver.page_source, "html.parser")
      cases = extract_cases_from_soup(soup)
      all_cases.extend(cases)
      ...
  \<close>
  returns the rows and the session. The third component of the result is not a variable of
  the program: it records the session states whose page the loop has read, in order.
\<close>

function scrape_pages :: "('d, 'e) world \<Rightarrow> 'd \<Rightarrow> nat \<Rightarrow> case_row list \<Rightarrow> 'd list
    \<Rightarrow> case_row list \<times> 'd \<times> 'd list" where
  "scrape_pages W d page_index rows_so_far visited =
     (if page_index \<le> max_pages then
        (let soup = page_soup W d;
             cases = extract_cases_from_soup (dateutil W) soup;
             rows' = rows_so_far @ cases;
             visited' = visited @ [d]
         in case next_by_link_text W d of
              Clicked d' \<Rightarrow> scrape_pages W d' (page_index + 1) rows' visited'
            | Not_Enabled \<Rightarrow> (rows', d, visited')
            | Excepted \<Rightarrow>
                (case next_by_xpath W d of
                   Some d' \<Rightarrow> scrape_pages W d' (page_index + 1) rows' visited'
                 | None \<Rightarrow> (rows', d, visited')))
      else (rows_so_far, d, visited))"
  by pat_completeness auto
termination
  by (relation "measure (\<lambda>(W, d, page_index, rows_so_far, visited). Suc max_pages - page_index)") auto

declare scrape_pages.simps [simp del]

section \<open>Capturing one case: \<^verbatim>\<open>capture_case_details_automated\<close>\<close>

text \<open>
  The dictionary \<^verbatim>\<open>case_data\<close> that the function returns. \<open>pdf_saved\<close> stands for the
  check mark or cross under \<^verbatim>\<open>"PDF Saved"\<close>, \<open>additional_pdfs\<close> for the number under
  \<^verbatim>\<open>"Additional PDFs"\<close> and \<open>status\<close> for the text under \<^verbatim>\<open>"Status"\<close>
  (\<^verbatim>\<open>Completed\<close> or \<^verbatim>\<open>Failed - No View Button\<close>).
\<close>

datatype capture_status = Completed | Failed_No_View_Button

record captured_case =
  serial_number :: string
  cnr_number :: "string option"
  case_type :: "string option"
  court_number_and_judge :: "string option"
  filing_number :: "string option"
  registration_number :: "string option"
  case_court_name :: string
  case_next_hearing_date :: "date option"
  pdf_saved :: bool
  additional_pdfs :: nat
  status :: capture_status

definition DOWNLOAD_DIR :: string where
  "DOWNLOAD_DIR = ''downloads''"

definition save_fullpage_pdf :: "('d, 'e) world \<Rightarrow> 'd \<Rightarrow> string \<Rightarrow> bool" where
  "save_fullpage_pdf W d output_path = print_to_pdf W d output_path"

definition extract_case_details :: "('d, 'e) world \<Rightarrow> 'd \<Rightarrow> details" where
  "extract_case_details W d = extract_case_details_of_soup (page_soup W d)"

text \<open>
  \<^verbatim>\<open>
  pdfs = []
  for a in soup_now.find_all("a", href=True):
      if a['href'].lower().endswith(".pdf"):
          href = urljoin(driver.current_url, a['href'])
          dl = download_file(href, dst_folder=DOWNLOAD_DIR)
          if dl:
              pdfs.append(dl)
  \<close>
\<close>

fun href_of :: "node \<Rightarrow> string option" where
  "href_of (Tag name attrs children) = map_of attrs ''href''"
| "href_of (NavigableString s) = None"

fun pdfs_loop :: "('d, 'e) world \<Rightarrow> 'd \<Rightarrow> string list \<Rightarrow> string list \<Rightarrow> string list" where
  "pdfs_loop W d [] pdfs = pdfs"
| "pdfs_loop W d (a_href # hrefs) pdfs =
     (if suffix ''.pdf'' (map to_lower a_href)
      then (let href = urljoin W (current_url W d) a_href
            in case download_file W href of
                 None \<Rightarrow> pdfs_loop W d hrefs pdfs
               | Some dl \<Rightarrow>
                   if dl \<noteq> [] then pdfs_loop W d hrefs (pdfs @ [dl])
                   else pdfs_loop W d hrefs pdfs)
      else pdfs_loop W d hrefs pdfs)"

definition download_linked_pdfs :: "('d, 'e) world \<Rightarrow> 'd \<Rightarrow> string list" where
  "download_linked_pdfs W d =
     pdfs_loop W d (List.map_filter href_of (find_all [''a''] (page_soup W d))) []"

text \<open>
  The function. Its result is the returned dictionary, or \<open>None\<close> when an exception leaves
  the function, and the session after the call. The write to the database
  (\<^verbatim>\<open>save_case_to_db\<close>) is not part of the model; its result only appears in a status
  message. The last step is
  \<^verbatim>\<open>
  if not click_back_button(driver):
      # If back button fails, use browser back
      driver.back()
      time.sleep(2)
  return case_data
  \<close>
  where \<^verbatim>\<open>driver.back()\<close> stands outside every \<^verbatim>\<open>try\<close>.
\<close>

definition failed_case :: "case_row \<Rightarrow> captured_case" where
  "failed_case c =
     \<lparr>serial_number = serial c, cnr_number = None, case_type = None,
      court_number_and_judge = None, filing_number = None, registration_number = None,
      case_court_name = court_name c, case_next_hearing_date = next_hearing_date c,
      pdf_saved = False, additional_pdfs = 0, status = Failed_No_View_Button\<rparr>"

definition capture_case_details_automated ::
    "('d, 'e) world \<Rightarrow> 'd \<Rightarrow> case_row \<Rightarrow> captured_case option \<times> 'd" where
  "capture_case_details_automated W d c =
     (case find_and_click_view_button W d (serial c) of
        (True, d1) \<Rightarrow>
          (let pdf_path = DOWNLOAD_DIR @ ''/serial_'' @ serial c @ ''.pdf'';
               saved = save_fullpage_pdf W d1 pdf_path;
               details = extract_case_details W d1;
               pdfs = download_linked_pdfs W d1;
               case_data =
                 \<lparr>serial_number = serial c,
                  cnr_number = dict_get details ''CNR Number'',
                  case_type = dict_get details ''Case Type'',
                  court_number_and_judge = dict_get details ''Court Number and Judge'',
                  filing_number = dict_get details ''Filing Number'',
                  registration_number = dict_get details ''Registration Number'',
                  case_court_name = court_name c,
                  case_next_hearing_date = next_hearing_date c,
                  pdf_saved = saved,
                  additional_pdfs = length pdfs,
                  status = Completed\<rparr>
           in case click_back_button W d1 of
                (True, d2) \<Rightarrow> (Some case_data, d2)
              | (False, d2) \<Rightarrow>
                  (case history_back W d2 of
                     Some d3 \<Rightarrow> (Some case_data, d3)
                   | None \<Rightarrow> (None, d2)))
      | (False, d1) \<Rightarrow> (Some (failed_case c), d1))"

section \<open>The Streamlit session and its script runs\<close>

text \<open>
  \<^verbatim>\<open>st.session_state\<close>, with the keys that \<^verbatim>\<open>main\<close> and the steps set. The last two
  fields are not keys of the program: \<open>sessions_opened\<close> counts the browser sessions that
  \<^verbatim>\<open>setup_driver\<close> has returned and \<open>sessions_closed\<close> counts the calls of
  \<^verbatim>\<open>quit()\<close> or \<^verbatim>\<open>close()\<close> on a driver. The program contains no such call, so no
  function of the model changes \<open>sessions_closed\<close>.
\<close>

record 'd session_state =
  current_step :: nat
  captured_cases :: "captured_case list"
  matches :: "case_row list"
  driver :: "'d option"
  capture_in_progress :: bool
  current_case_index :: nat
  captcha_value :: string
  all_cases :: "case_row list"
  sessions_opened :: nat
  sessions_closed :: nat

text \<open>
  How one run of the script ends: with \<^verbatim>\<open>st.rerun()\<close>, normally, or with an exception
  that no handler of the program catches.
\<close>

datatype outcome = Rerun | Finished | Raised

subsection \<open>\<^verbatim>\<open>perform_capture\<close>\<close>

text \<open>
  \<^verbatim>\<open>
  current_index = st.session_state.current_case_index
  if current_index < len(matches):
      case = matches[current_index]
      captured_data = capture_case_details_automated(driver, case, status_placeholder)
      if captured_data:
          st.session_state.captured_cases.append(captured_data)
      st.session_state.current_case_index += 1
      time.sleep(1)
      st.rerun()
  else:
      st.session_state.capture_in_progress = False
      ... (the summary and the Excel download)
  \<close>
  The returned dictionary is never empty, so \<^verbatim>\<open>if captured_data\<close> holds. With no driver
  in the session (\<^verbatim>\<open>None\<close>), \<^verbatim>\<open>find_and_click_view_button\<close> catches the
  \<^verbatim>\<open>AttributeError\<close> and returns \<^verbatim>\<open>False\<close>.
\<close>

definition perform_capture :: "('d, 'e) world \<Rightarrow> 'd session_state \<Rightarrow> outcome \<times> 'd session_state" where
  "perform_capture W ss =
     (let current_index = current_case_index ss
      in if current_index < length (matches ss) then
           (let c = matches ss ! current_index;
                (captured_data, drv) =
                  (case driver ss of
                     None \<Rightarrow> (Some (failed_case c), None)
                   | Some d \<Rightarrow>
                       (let (r, d') = capture_case_details_automated W d c in (r, Some d')))
            in case captured_data of
                 None \<Rightarrow> (Raised, ss\<lparr>driver := drv\<rparr>)
               | Some case_data \<Rightarrow>
                   (Rerun, ss\<lparr>captured_cases := captured_cases ss @ [case_data],
                              driver := drv,
                              current_case_index := current_index + 1\<rparr>))
         else (Finished, ss\<lparr>capture_in_progress := False\<rparr>))"

lemma perform_capture_Rerun:
  assumes "perform_capture W ss = (Rerun, ss')"
  shows "current_case_index ss < length (matches ss) \<and>
         current_case_index ss' = current_case_index ss + 1 \<and>
         matches ss' = matches ss \<and> current_step ss' = current_step ss \<and>
         capture_in_progress ss' = capture_in_progress ss"
proof -
  have "fst (perform_capture W ss) = Rerun \<longrightarrow>
     current_case_index ss < length (matches ss) \<and>
     current_case_index (snd (perform_capture W ss)) = current_case_index ss + 1 \<and>
     matches (snd (perform_capture W ss)) = matches ss \<and>
     current_step (snd (perform_capture W ss)) = current_step ss \<and>
     capture_in_progress (snd (perform_capture W ss)) = capture_in_progress ss"
    by (simp add: perform_capture_def Let_def split_beta split: option.split)
  with assms show ?thesis by simp
qed

text \<open>The runs of \<^verbatim>\<open>perform_capture\<close> that follow one another through \<^verbatim>\<open>st.rerun()\<close>.\<close>

function capture_loop :: "('d, 'e) world \<Rightarrow> 'd session_state \<Rightarrow> outcome \<times> 'd session_state" where
  "capture_loop W ss =
     (case perform_capture W ss of
        (Rerun, ss') \<Rightarrow> capture_loop W ss'
      | (Finished, ss') \<Rightarrow> (Finished, ss')
      | (Raised, ss') \<Rightarrow> (Raised, ss'))"
  by pat_completeness auto
termination
proof (relation "measure (\<lambda>(W, ss). length (matches ss) - current_case_index ss)")
  show "wf (measure (\<lambda>(W, ss). length (matches ss) - current_case_index ss))"
    by simp
next
  fix W :: "('d, 'e) world" and ss :: "'d session_state" and x xa ss'
  assume "(x, ss') = perform_capture W ss" "x = Rerun"
  then have "perform_capture W ss = (Rerun, ss')"
    by simp
  from perform_capture_Rerun [OF this]
  show "((W, ss'), (W, ss)) \<in> measure (\<lambda>(W, ss). length (matches ss) - current_case_index ss)"
    by auto
qed

declare capture_loop.simps [simp del]

subsection \<open>\<^verbatim>\<open>process_scraping\<close>\<close>

definition CAPTCHA_INPUT :: string where
  "CAPTCHA_INPUT = ''//input[contains(@id,'captcha') or contains(@name,'captcha')]''"

definition case_type_button :: "string \<Rightarrow> string" where
  "case_type_button btn_text =
     ''//button[contains(.,'' @ apostrophe @ btn_text @ apostrophe @ '') or //input[@value=''
       @ apostrophe @ btn_text @ apostrophe @ '']]''"

text \<open>
  \<^verbatim>\<open>
  for btn_text in ["Civil", "Criminal"]:
      try:
          btn = driver.find_element(By.XPATH, f"//button[contains(.,'{btn_text}') or //input[@value='{btn_text}']]")
          btn.click()
          break
      except Exception:
          continue
  \<close>
\<close>

fun case_type_loop :: "('d, 'e) world \<Rightarrow> 'd \<Rightarrow> string list \<Rightarrow> 'd" where
  "case_type_loop W d [] = d"
| "case_type_loop W d (btn_text # others) =
     (case find_element W d (XPATH (case_type_button btn_text)) of
        None \<Rightarrow> case_type_loop W d others
      | Some btn \<Rightarrow>
          (case element_click W d btn of
             None \<Rightarrow> case_type_loop W d others
           | Some d' \<Rightarrow> d'))"

text \<open>
  The function: the CAPTCHA is typed in, a case type is chosen, the pages are read, the
  rows are filtered and the results are stored in the session state. All of it stands in
  one \<^verbatim>\<open>try\<close> whose handler shows the error and returns; with no driver in the session
  the first call raises.
  \<^verbatim>\<open>
  st.session_state.matches = matches
  st.session_state.all_cases = all_cases
  if matches:
      st.session_state.current_step = 4
      st.rerun()
  else:
      st.session_state.current_step = 1
  \<close>
\<close>

definition process_scraping :: "('d, 'e) world \<Rightarrow> 'd session_state \<Rightarrow> outcome \<times> 'd session_state" where
  "process_scraping W ss =
     (case driver ss of
        None \<Rightarrow> (Finished, ss)
      | Some d \<Rightarrow>
          (case find_element W d (XPATH CAPTCHA_INPUT) of
             None \<Rightarrow> (Finished, ss)
           | Some captcha_input \<Rightarrow>
               (case element_clear W d captcha_input of
                  None \<Rightarrow> (Finished, ss)
                | Some d1 \<Rightarrow>
                    (case send_keys W d1 captcha_input (captcha_value ss) of
                       None \<Rightarrow> (Finished, ss\<lparr>driver := Some d1\<rparr>)
                     | Some d2 \<Rightarrow>
                         (let d3 = case_type_loop W d2 [''Civil'', ''Criminal''];
                              (rows, d4, visited) = scrape_pages W d3 1 [] [];
                              found = hearing_date_filter (date_today W) rows;
                              ss' = ss\<lparr>driver := Some d4, matches := found, all_cases := rows\<rparr>
                          in if found \<noteq> []
                             then (Rerun, ss'\<lparr>current_step := 4\<rparr>)
                             else (Finished, ss'\<lparr>current_step := 1\<rparr>))))))"

subsection \<open>\<^verbatim>\<open>scrape_cases_ui\<close>\<close>

text \<open>
  One run of the script in the mode \<^verbatim>\<open>Scrape Cases\<close>. The widgets of the page are the
  inputs of a run: the button that was clicked, if any, and the text of the CAPTCHA field.
\<close>

datatype click =
    No_Click
  | Initialize_Browser_Session
  | Submit_CAPTCHA_and_Scrape
  | Refresh_CAPTCHA
  | Start_Automatic_Capture

definition ECOURTS_URL :: string where
  "ECOURTS_URL = ''https://services.ecourts.gov.in/ecourtindia_v6/?p=cause_list/index&app_token=999af70e3228e4c73736b14e53143cc8215edf44df7868a06331996cdf179d97#''"

text \<open>
  \<^verbatim>\<open>setup_driver\<close> returns the new driver, or \<^verbatim>\<open>None\<close> when
  \<^verbatim>\<open>webdriver.Chrome\<close> raises.
\<close>

definition setup_driver :: "('d, 'e) world \<Rightarrow> 'd option" where
  "setup_driver W = new_chrome W"

text \<open>
  \<^verbatim>\<open>
  if st.button("Start Automatic Capture of All Cases"):
      st.session_state.capture_in_progress = True
      st.session_state.current_case_index = 0
      st.session_state.captured_cases = []
      st.rerun()
  \<close>
\<close>

definition display_scraped_cases :: "click \<Rightarrow> 'd session_state \<Rightarrow> outcome \<times> 'd session_state" where
  "display_scraped_cases clicked ss =
     (if clicked = Start_Automatic_Capture
      then (Rerun, ss\<lparr>capture_in_progress := True, current_case_index := 0, captured_cases := []\<rparr>)
      else (Finished, ss))"

definition capture_cases_ui :: "('d, 'e) world \<Rightarrow> click \<Rightarrow> 'd session_state \<Rightarrow> outcome \<times> 'd session_state" where
  "capture_cases_ui W clicked ss =
     (if capture_in_progress ss then perform_capture W ss else display_scraped_cases clicked ss)"

text \<open>
  Step 1:
  \<^verbatim>\<open>
  if st.button("Initialize Browser Session"):
      driver = setup_driver()
      if driver:
          st.session_state.driver = driver
          try:
              driver.get(ECOURTS_URL)
              st.session_state.current_step = 2
              st.rerun()
          except Exception as e:
              st.error(f"Error loading eCourts website: {e}")
  \<close>
  Step 2 (a driver object is always truthy):
  \<^verbatim>\<open>
  if st.session_state.driver:
      captcha_file = save_captcha_image(st.session_state.driver)
      captcha_value = st.text_input("Enter CAPTCHA value:")
      if st.button("Submit CAPTCHA and Scrape"):
          if captcha_value:
              st.session_state.current_step = 3
              st.session_state.captcha_value = captcha_value
              st.rerun()
          else:
              st.error("Please enter CAPTCHA value")
      if st.button("Refresh CAPTCHA"):
          captcha_file = save_captcha_image(st.session_state.driver, "captcha_refresh.png")
          if captcha_file:
              st.rerun()
  \<close>
  Step 3 calls \<^verbatim>\<open>process_scraping\<close> when \<^verbatim>\<open>matches\<close> is empty and
  \<^verbatim>\<open>display_scraped_cases\<close> otherwise; step 4 calls \<^verbatim>\<open>capture_cases_ui\<close>.
\<close>

definition scrape_cases_ui ::
    "('d, 'e) world \<Rightarrow> click \<Rightarrow> string \<Rightarrow> 'd session_state \<Rightarrow> outcome \<times> 'd session_state" where
  "scrape_cases_ui W clicked captcha_text ss =
     (if current_step ss = 1 then
        (if clicked = Initialize_Browser_Session then
           (case setup_driver W of
              None \<Rightarrow> (Finished, ss)
            | Some d \<Rightarrow>
                (let ss1 = ss\<lparr>driver := Some d, sessions_opened := sessions_opened ss + 1\<rparr>
                 in case driver_get W d ECOURTS_URL of
                      Some d' \<Rightarrow> (Rerun, ss1\<lparr>driver := Some d', current_step := 2\<rparr>)
                    | None \<Rightarrow> (Finished, ss1)))
         else (Finished, ss))
      else if current_step ss = 2 then
        (case driver ss of
           None \<Rightarrow> (Finished, ss)
         | Some d \<Rightarrow>
             if clicked = Submit_CAPTCHA_and_Scrape then
               (if captcha_text \<noteq> []
                then (Rerun, ss\<lparr>current_step := 3, captcha_value := captcha_text\<rparr>)
                else (Finished, ss))
             else if clicked = Refresh_CAPTCHA then
               (if captcha_image W d ''captcha_refresh.png'' then (Rerun, ss) else (Finished, ss))
             else (Finished, ss))
      else if current_step ss = 3 then
        (if matches ss = [] then process_scraping W ss else display_scraped_cases clicked ss)
      else if current_step ss = 4 then capture_cases_ui W clicked ss
      else (Finished, ss))"

lemma process_scraping_Rerun:
  assumes "process_scraping W ss = (Rerun, ss')"
  shows "current_step ss' = 4 \<and> matches ss' \<noteq> []"
proof -
  have "fst (process_scraping W ss) = Rerun \<longrightarrow>
     current_step (snd (process_scraping W ss)) = 4 \<and> matches (snd (process_scraping W ss)) \<noteq> []"
    by (simp add: process_scraping_def Let_def split_beta split: option.split)
  with assms show ?thesis by simp
qed

lemma scrape_cases_ui_No_Click_Rerun:
  assumes "scrape_cases_ui W No_Click captcha_text ss = (Rerun, ss')"
  shows "(current_step ss = 3 \<and> matches ss = [] \<and> current_step ss' = 4 \<and> matches ss' \<noteq> []) \<or>
         (current_step ss = 4 \<and> current_step ss' = 4 \<and> matches ss' = matches ss \<and>
          current_case_index ss < length (matches ss) \<and>
          current_case_index ss' = current_case_index ss + 1)"
proof -
  consider "current_step ss = 1" | "current_step ss = 2" | "current_step ss = 3"
    | "current_step ss = 4" | "current_step ss \<notin> {1, 2, 3, 4}"
    by auto
  then show ?thesis
  proof cases
    case 1
    with assms show ?thesis by (simp add: scrape_cases_ui_def)
  next
    case 2
    with assms show ?thesis by (simp add: scrape_cases_ui_def split: option.splits)
  next
    case 3
    with assms have "matches ss = [] \<and> process_scraping W ss = (Rerun, ss')"
      by (auto simp: scrape_cases_ui_def display_scraped_cases_def split: if_splits)
    with 3 process_scraping_Rerun [of W ss ss'] show ?thesis by simp
  next
    case 4
    with assms have "perform_capture W ss = (Rerun, ss')"
      by (auto simp: scrape_cases_ui_def capture_cases_ui_def display_scraped_cases_def
          split: if_splits)
    with 4 perform_capture_Rerun [of W ss ss'] show ?thesis by simp
  next
    case 5
    with assms show ?thesis by (simp add: scrape_cases_ui_def)
  qed
qed

text \<open>
  After \<^verbatim>\<open>st.rerun()\<close> the script runs again with no button clicked, until a run ends
  otherwise.
\<close>

function reruns :: "('d, 'e) world \<Rightarrow> string \<Rightarrow> 'd session_state \<Rightarrow> outcome \<times> 'd session_state" where
  "reruns W captcha_text ss =
     (case scrape_cases_ui W No_Click captcha_text ss of
        (Rerun, ss') \<Rightarrow> reruns W captcha_text ss'
      | (Finished, ss') \<Rightarrow> (Finished, ss')
      | (Raised, ss') \<Rightarrow> (Raised, ss'))"
  by pat_completeness auto
termination
proof (relation "measures
    [\<lambda>(W, t, ss). if current_step ss = 3 \<and> matches ss = [] then 1 else 0,
     \<lambda>(W, t, ss). length (matches ss) - current_case_index ss]")
  show "wf (measures
    [\<lambda>(W :: ('d, 'e) world, t :: string, ss :: 'd session_state).
        if current_step ss = 3 \<and> matches ss = [] then 1 else 0,
     \<lambda>(W, t, ss). length (matches ss) - current_case_index ss])"
    by simp
next
  fix W :: "('d, 'e) world" and captcha_text :: string and ss :: "'d session_state" and x ss'
  assume "(x, ss') = scrape_cases_ui W No_Click captcha_text ss" "x = Rerun"
  then have "scrape_cases_ui W No_Click captcha_text ss = (Rerun, ss')"
    by simp
  from scrape_cases_ui_No_Click_Rerun [OF this]
  show "((W, captcha_text, ss'), (W, captcha_text, ss)) \<in> measures
    [\<lambda>(W, t, ss). if current_step ss = 3 \<and> matches ss = [] then 1 else 0,
     \<lambda>(W, t, ss). length (matches ss) - current_case_index ss]"
    by auto
qed

declare reruns.simps [simp del]

text \<open>
  A whole use of the page: the user's actions one after the other, each followed by the
  reruns it sets off. After a run that ended with an exception the page still reacts to
  the next action.
\<close>

fun app_run :: "('d, 'e) world \<Rightarrow> 'd session_state \<Rightarrow> (click \<times> string) list \<Rightarrow> 'd session_state" where
  "app_run W ss [] = ss"
| "app_run W ss ((clicked, captcha_text) # actions) =
     (case scrape_cases_ui W clicked captcha_text ss of
        (Rerun, ss') \<Rightarrow> app_run W (snd (reruns W captcha_text ss')) actions
      | (Finished, ss') \<Rightarrow> app_run W ss' actions
      | (Raised, ss') \<Rightarrow> app_run W ss' actions)"

text \<open>The session state that \<^verbatim>\<open>main\<close> sets up on the first run.\<close>

definition initial_state :: "'d session_state" where
  "initial_state =
     \<lparr>current_step = 1, captured_cases = [], matches = [], driver = None,
      capture_in_progress = False, current_case_index = 0, captcha_value = [],
      all_cases = [], sessions_opened = 0, sessions_closed = 0\<rparr>"

text \<open>
  The session state in which the capture of the rows \<open>rows\<close> starts: step 4 with the
  browser session \<open>d\<close>, after the button \<^verbatim>\<open>Start Automatic Capture\<close> has set the index
  to 0 and emptied the list of captured cases.
\<close>

definition capture_start :: "'d \<Rightarrow> case_row list \<Rightarrow> 'd session_state" where
  "capture_start d rows =
     initial_state\<lparr>current_step := 4, matches := rows, driver := Some d,
                   capture_in_progress := True\<rparr>"

section \<open>Example sites\<close>

text \<open>
  Small collaborators on which the theorems below are instantiated. In \<open>null_world\<close> every
  lookup and every command raises and every page is empty.
\<close>

definition null_world :: "('d, 'e) world" where
  "null_world =
     \<lparr>find_element = (\<lambda>d l. None), find_elements = (\<lambda>d l. None),
      element_find_element = (\<lambda>d e l. None), element_find_elements = (\<lambda>d e l. None),
      element_text = (\<lambda>d e. None), is_enabled = (\<lambda>d e. None),
      element_click = (\<lambda>d e. None), element_clear = (\<lambda>d e. None),
      send_keys = (\<lambda>d e s. None), script_click = (\<lambda>d e. None),
      history_back = (\<lambda>d. None), driver_get = (\<lambda>d u. None),
      page_soup = (\<lambda>d. Tag ''[document]'' [] []), current_url = (\<lambda>d. []),
      print_to_pdf = (\<lambda>d p. False), captcha_image = (\<lambda>d p. False),
      new_chrome = None, download_file = (\<lambda>u. None), urljoin = (\<lambda>b u. u),
      dateutil = None, date_today = 0\<rparr>"


text \<open>
  A site with a listing (session state 0) and one detail page (state 1). The listing has a
  single link containing View, element 10, in the table row 11 whose text is
  \<^verbatim>\<open>1 A vs B View\<close>; clicking it opens the detail page, and the browser's history leads
  back. The detail page has no Back control.
\<close>

definition detail_page :: node where
  "detail_page =
     Tag ''[document]'' []
       [Tag ''p'' [] [NavigableString ''Case Type: Civil'']]"

definition court_site :: "(nat, nat) world" where
  "court_site =
     null_world
       \<lparr>find_elements := (\<lambda>d l. if d = 0 \<and> l = XPATH VIEW_LINKS then Some [10] else Some []),
        element_find_element :=
          (\<lambda>d e l. if e = 10 \<and> l = XPATH ''./ancestor::tr[1]'' then Some 11 else None),
        element_text := (\<lambda>d e. if e = 11 then Some ''1 A vs B View'' else None),
        script_click := (\<lambda>d e. if d = 0 \<and> e = 10 then Some 1 else None),
        history_back := (\<lambda>d. if d = 1 then Some 0 else None),
        page_soup := (\<lambda>d. if d = 1 then detail_page else Tag ''[document]'' [] []),
        print_to_pdf := (\<lambda>d p. d = 1)\<rparr>"


text \<open>
  A site with two listing pages that show the same table: a header row and one case with
  serial 1 and the next hearing date 12/05/2024, which is today (day number 739018). A fresh
  browser is in state 0, the first listing page is state 1, the second is state 2 and the
  detail page of the case is state 3. Only the first page has a link labelled Next.
\<close>

definition listing_page :: node where
  "listing_page =
     Tag ''[document]'' []
       [Tag ''h2'' [] [NavigableString ''District Court''],
        Tag ''table'' []
          [Tag ''tr'' [] [Tag ''th'' [] [NavigableString ''Sr''], Tag ''th'' [] [NavigableString ''Next'']],
           Tag ''tr'' []
             [Tag ''td'' [] [NavigableString ''1''],
              Tag ''td'' [] [NavigableString ''Next Date: 12/05/2024''],
              Tag ''td'' [] [Tag ''a'' [(''href'', ''#'')] [NavigableString ''View'']]]]]"

definition two_page_site :: "(nat, nat) world" where
  "two_page_site =
     null_world
       \<lparr>find_element :=
          (\<lambda>d l. if l = XPATH CAPTCHA_INPUT then Some 1
                  else if l = LINK_TEXT ''Next'' \<and> d = 1 then Some 2
                  else None),
        find_elements := (\<lambda>d l. if l = XPATH VIEW_LINKS then Some [10] else Some []),
        element_find_element :=
          (\<lambda>d e l. if e = 10 \<and> l = XPATH ''./ancestor::tr[1]'' then Some 11 else None),
        element_text := (\<lambda>d e. if e = 11 then Some ''1 Next Date: 12/05/2024 View'' else None),
        is_enabled := (\<lambda>d e. Some True),
        element_click := (\<lambda>d e. if d = 1 \<and> e = 2 then Some 2 else None),
        element_clear := (\<lambda>d e. Some d),
        send_keys := (\<lambda>d e s. Some d),
        script_click := (\<lambda>d e. if e = 10 then Some 3 else None),
        history_back := (\<lambda>d. if d = 3 then Some 2 else None),
        driver_get := (\<lambda>d u. Some 1),
        page_soup := (\<lambda>d. if d = 3 then detail_page else listing_page),
        print_to_pdf := (\<lambda>d p. True),
        new_chrome := Some 0,
        dateutil := Some (\<lambda>dayfirst s. if dayfirst \<and> s = ''12/05/2024'' then Some 739018 else None),
        date_today := 739018\<rparr>"

text \<open>
  A page without a heading whose table has a header row, a row without cells and one row
  with the single cell \<^verbatim>\<open> 7 \<close>.
\<close>

definition unnamed_page :: node where
  "unnamed_page =
     Tag ''[document]'' []
       [Tag ''table'' []
          [Tag ''tr'' [] [Tag ''th'' [] [NavigableString ''Sr'']],
           Tag ''tr'' [] [],
           Tag ''tr'' [] [Tag ''td'' [] [NavigableString '' 7 '']]]]"

chapter \<open>Properties\<close>

section \<open>Properties of the hearing-date filter\<close>





section \<open>The paginator\<close>







section \<open>The locators\<close>

lemma view_links_loop_clicks:
  "view_links_loop W d sn links = Some d' \<Longrightarrow> \<exists>e \<in> set links. script_click W d e = Some d'"
  by (induction links) (auto split: option.splits if_splits)

lemma any_link_loop_clicks:
  "any_link_loop W d links = Some d' \<Longrightarrow> \<exists>e \<in> set links. script_click W d e = Some d'"
  by (induction links) (auto split: option.splits if_splits)

lemma view_in_serial_row_clicks:
  "view_in_serial_row W d sn = Some d' \<Longrightarrow> \<exists>e. script_click W d e = Some d'"
  by (auto simp: view_in_serial_row_def split: option.splits list.splits)

lemma any_link_in_serial_row_clicks:
  "any_link_in_serial_row W d sn = Some d' \<Longrightarrow> \<exists>e. script_click W d e = Some d'"
  by (auto simp: any_link_in_serial_row_def split: option.splits dest: any_link_loop_clicks)

lemma find_and_click_view_button_result:
  assumes "find_and_click_view_button W d sn = (found, d')"
  shows "(found \<longrightarrow> (\<exists>e. script_click W d e = Some d')) \<and> (\<not> found \<longrightarrow> d' = d)"
  using assms
  by (auto simp: find_and_click_view_button_def split: option.splits
      dest: view_links_loop_clicks view_in_serial_row_clicks any_link_in_serial_row_clicks)

lemma back_selectors_loop_clicks:
  "back_selectors_loop W d sels = Some d' \<Longrightarrow>
     \<exists>sel \<in> set sels. \<exists>e. find_element W d (XPATH sel) = Some e \<and> script_click W d e = Some d'"
  by (induction sels) (auto split: option.splits)

lemma click_back_button_result:
  assumes "click_back_button W d = (ok, d')"
  shows "(ok \<longrightarrow> (\<exists>e. script_click W d e = Some d') \<or> history_back W d = Some d') \<and>
         (\<not> ok \<longrightarrow> d' = d \<and> history_back W d = None)"
  using assms
  by (auto simp: click_back_button_def split: option.splits dest: back_selectors_loop_clicks)


text \<open>
  Claim C9 says that the two locators only look elements up and leave the clicking to the
  caller. The functions of the program do otherwise, as the name of the first one says. On
  the example site the call for serial 1 returns the flag \<open>True\<close>, not an element, and has
  moved the browser from the listing to the detail page; the call of the back locator on the
  detail page has moved it back.
\<close>

theorem locators_are_pure_counterexample:
  "find_and_click_view_button court_site 0 ''1'' = (True, 1) \<and>
   snd (find_and_click_view_button court_site 0 ''1'') \<noteq> 0 \<and>
   click_back_button court_site 1 = (True, 0) \<and>
   snd (click_back_button court_site 1) \<noteq> 1"
  by (simp add: find_and_click_view_button_def click_back_button_def court_site_def
      null_world_def VIEW_LINKS_def back_selectors_def)

text \<open>
  Claim C9 as amended. \<open>find_and_click_view_button\<close> returns a flag. When the flag is
  \<open>True\<close> the function has itself clicked, through the script, an element it has found,
  and the session is the one after that click; when it is \<open>False\<close> the session is
  unchanged. \<open>click_back_button\<close> returns \<open>True\<close> after itself clicking a back control
  it has found or else after the browser's history back; it returns \<open>False\<close> only when
  history back raises, and then the session is unchanged.
\<close>

theorem locators_click_themselves:
  "(fst (find_and_click_view_button W d sn) \<longrightarrow>
      (\<exists>e. script_click W d e = Some (snd (find_and_click_view_button W d sn)))) \<and>
   (\<not> fst (find_and_click_view_button W d sn) \<longrightarrow>
      snd (find_and_click_view_button W d sn) = d) \<and>
   (fst (click_back_button W d) \<longrightarrow>
      (\<exists>e. script_click W d e = Some (snd (click_back_button W d))) \<or>
      history_back W d = Some (snd (click_back_button W d))) \<and>
   (\<not> fst (click_back_button W d) \<longrightarrow>
      snd (click_back_button W d) = d \<and> history_back W d = None)"
  using find_and_click_view_button_result [of W d sn "fst (find_and_click_view_button W d sn)"
      "snd (find_and_click_view_button W d sn)"]
    click_back_button_result [of W d "fst (click_back_button W d)" "snd (click_back_button W d)"]
  by simp

theorem locators_click_themselves_witness:
  "script_click court_site 0 10 = Some (snd (find_and_click_view_button court_site 0 ''1'')) \<and>
   snd (find_and_click_view_button court_site 0 ''2'') = 0 \<and>
   history_back court_site 1 = Some (snd (click_back_button court_site 1)) \<and>
   snd (click_back_button court_site 0) = 0"
proof -
  have e1: "find_and_click_view_button court_site 0 ''1'' = (True, 1)"
    by (simp add: find_and_click_view_button_def court_site_def null_world_def VIEW_LINKS_def)
  have e2: "\<not> fst (find_and_click_view_button court_site 0 ''2'')"
    by (simp add: find_and_click_view_button_def court_site_def null_world_def VIEW_LINKS_def
        view_in_serial_row_def any_link_in_serial_row_def)
  have e3: "click_back_button court_site 1 = (True, 0)"
    by (simp add: click_back_button_def court_site_def null_world_def back_selectors_def)
  have e4: "\<not> fst (click_back_button court_site 0)"
    by (simp add: click_back_button_def court_site_def null_world_def back_selectors_def)
  have "script_click court_site 0 10 = Some (snd (find_and_click_view_button court_site 0 ''1''))"
    using e1 by (simp add: court_site_def null_world_def)
  moreover have "snd (find_and_click_view_button court_site 0 ''2'') = 0"
    using locators_click_themselves [of court_site 0 "''2''"] e2 by blast
  moreover have "history_back court_site 1 = Some (snd (click_back_button court_site 1))"
    using e3 by (simp add: court_site_def null_world_def)
  moreover have "snd (click_back_button court_site 0) = 0"
    using locators_click_themselves [of court_site 0 "''2''"] e4 by blast
  ultimately show ?thesis by simp
qed

section \<open>Runs on the example sites\<close>

text \<open>
  The functions of each example site, and the results of the runs that the examples below
  refer to.
\<close>

lemma court_site_sel:
  "find_element court_site = (\<lambda>d l. None)"
  "find_elements court_site = (\<lambda>d l. if d = 0 \<and> l = XPATH VIEW_LINKS then Some [10] else Some [])"
  "element_find_element court_site =
     (\<lambda>d e l. if e = 10 \<and> l = XPATH ''./ancestor::tr[1]'' then Some 11 else None)"
  "element_find_elements court_site = (\<lambda>d e l. None)"
  "element_text court_site = (\<lambda>d e. if e = 11 then Some ''1 A vs B View'' else None)"
  "script_click court_site = (\<lambda>d e. if d = 0 \<and> e = 10 then Some 1 else None)"
  "history_back court_site = (\<lambda>d. if d = 1 then Some 0 else None)"
  "page_soup court_site = (\<lambda>d. if d = 1 then detail_page else Tag ''[document]'' [] [])"
  "print_to_pdf court_site = (\<lambda>d p. d = 1)"
  "download_file court_site = (\<lambda>u. None)"
  by (simp_all add: court_site_def null_world_def)


lemma two_page_site_sel:
  "find_element two_page_site =
     (\<lambda>d l. if l = XPATH CAPTCHA_INPUT then Some 1
             else if l = LINK_TEXT ''Next'' \<and> d = 1 then Some 2 else None)"
  "find_elements two_page_site = (\<lambda>d l. if l = XPATH VIEW_LINKS then Some [10] else Some [])"
  "element_find_element two_page_site =
     (\<lambda>d e l. if e = 10 \<and> l = XPATH ''./ancestor::tr[1]'' then Some 11 else None)"
  "element_text two_page_site = (\<lambda>d e. if e = 11 then Some ''1 Next Date: 12/05/2024 View'' else None)"
  "is_enabled two_page_site = (\<lambda>d e. Some True)"
  "element_click two_page_site = (\<lambda>d e. if d = 1 \<and> e = 2 then Some 2 else None)"
  "element_clear two_page_site = (\<lambda>d e. Some d)"
  "send_keys two_page_site = (\<lambda>d e s. Some d)"
  "script_click two_page_site = (\<lambda>d e. if e = 10 then Some 3 else None)"
  "history_back two_page_site = (\<lambda>d. if d = 3 then Some 2 else None)"
  "driver_get two_page_site = (\<lambda>d u. Some 1)"
  "page_soup two_page_site = (\<lambda>d. if d = 3 then detail_page else listing_page)"
  "print_to_pdf two_page_site = (\<lambda>d p. True)"
  "new_chrome two_page_site = Some 0"
  "download_file two_page_site = (\<lambda>u. None)"
  "dateutil two_page_site =
     Some (\<lambda>dayfirst s. if dayfirst \<and> s = ''12/05/2024'' then Some 739018 else None)"
  "date_today two_page_site = 739018"
  by (simp_all add: two_page_site_def null_world_def)

lemma listing_rows:
  "extract_cases_from_soup
     (Some (\<lambda>dayfirst s. if dayfirst \<and> s = ''12/05/2024'' then Some 739018 else None)) listing_page =
   [\<lparr>serial = ''1'', cols = [''1'', ''Next Date: 12/05/2024'', ''View''],
     court_name = ''District Court'', next_hearing_date = Some 739018\<rparr>]"
  by code_simp

lemma detail_details:
  "extract_case_details_of_soup detail_page =
     [(''CNR Number'', None), (''Case Type'', Some ''Civil''), (''Court Number and Judge'', None),
      (''Filing Number'', None), (''Registration Number'', None)]"
  by code_simp

lemma detail_links: "List.map_filter href_of (find_all [''a''] detail_page) = []"
  by code_simp


lemmas run_defs =
  scrape_cases_ui_def setup_driver_def process_scraping_def capture_cases_ui_def
  display_scraped_cases_def perform_capture_def capture_case_details_automated_def
  find_and_click_view_button_def click_back_button_def back_selectors_def
  extract_case_details_def download_linked_pdfs_def save_fullpage_pdf_def
  next_by_link_text_def next_by_xpath_def hearing_date_filter_def max_pages_def
  case_type_button_def apostrophe_def CAPTCHA_INPUT_def VIEW_LINKS_def NEXT_LINK_def
  dict_get_def Let_def initial_state_def

lemma full_run:
  "app_run two_page_site initial_state
      [(Initialize_Browser_Session, []), (Submit_CAPTCHA_and_Scrape, ''abc''),
       (Start_Automatic_Capture, [])] =
   \<lparr>current_step = 4,
    captured_cases =
      [\<lparr>serial_number = ''1'', cnr_number = None, case_type = Some ''Civil'',
        court_number_and_judge = None, filing_number = None, registration_number = None,
        case_court_name = ''District Court'', case_next_hearing_date = Some 739018,
        pdf_saved = True, additional_pdfs = 0, status = Completed\<rparr>,
       \<lparr>serial_number = ''1'', cnr_number = None, case_type = Some ''Civil'',
        court_number_and_judge = None, filing_number = None, registration_number = None,
        case_court_name = ''District Court'', case_next_hearing_date = Some 739018,
        pdf_saved = True, additional_pdfs = 0, status = Completed\<rparr>],
    matches =
      [\<lparr>serial = ''1'', cols = [''1'', ''Next Date: 12/05/2024'', ''View''],
        court_name = ''District Court'', next_hearing_date = Some 739018\<rparr>,
       \<lparr>serial = ''1'', cols = [''1'', ''Next Date: 12/05/2024'', ''View''],
        court_name = ''District Court'', next_hearing_date = Some 739018\<rparr>],
    driver = Some 2, capture_in_progress = False, current_case_index = 2,
    captcha_value = ''abc'',
    all_cases =
      [\<lparr>serial = ''1'', cols = [''1'', ''Next Date: 12/05/2024'', ''View''],
        court_name = ''District Court'', next_hearing_date = Some 739018\<rparr>,
       \<lparr>serial = ''1'', cols = [''1'', ''Next Date: 12/05/2024'', ''View''],
        court_name = ''District Court'', next_hearing_date = Some 739018\<rparr>],
    sessions_opened = 1, sessions_closed = 0\<rparr>"
  by (simp add: run_defs reruns.simps scrape_pages.simps two_page_site_sel listing_rows
      detail_details detail_links)


lemma court_site_run:
  "capture_loop court_site (capture_start 0
      [\<lparr>serial = ''1'', cols = [''1''], court_name = ''C'', next_hearing_date = Some 5\<rparr>,
       \<lparr>serial = ''2'', cols = [''2''], court_name = ''C'', next_hearing_date = Some 6\<rparr>]) =
   (Finished,
    \<lparr>current_step = 4,
     captured_cases =
       [\<lparr>serial_number = ''1'', cnr_number = None, case_type = Some ''Civil'',
         court_number_and_judge = None, filing_number = None, registration_number = None,
         case_court_name = ''C'', case_next_hearing_date = Some 5, pdf_saved = True,
         additional_pdfs = 0, status = Completed\<rparr>,
        \<lparr>serial_number = ''2'', cnr_number = None, case_type = None,
         court_number_and_judge = None, filing_number = None, registration_number = None,
         case_court_name = ''C'', case_next_hearing_date = Some 6, pdf_saved = False,
         additional_pdfs = 0, status = Failed_No_View_Button\<rparr>],
     matches =
       [\<lparr>serial = ''1'', cols = [''1''], court_name = ''C'', next_hearing_date = Some 5\<rparr>,
        \<lparr>serial = ''2'', cols = [''2''], court_name = ''C'', next_hearing_date = Some 6\<rparr>],
     driver = Some 0, capture_in_progress = False, current_case_index = 2,
     captcha_value = [], all_cases = [], sessions_opened = 0, sessions_closed = 0\<rparr>)"
  by (simp add: run_defs capture_start_def capture_loop.simps court_site_sel detail_details
      detail_links view_in_serial_row_def any_link_in_serial_row_def serial_cell_def
      failed_case_def)


section \<open>Capturing the rows\<close>

lemma capture_locator_absent:
  "\<not> fst (find_and_click_view_button W d (serial c)) \<Longrightarrow>
     capture_case_details_automated W d c =
       (Some (failed_case c), snd (find_and_click_view_button W d (serial c)))"
  by (cases "find_and_click_view_button W d (serial c)")
     (simp add: capture_case_details_automated_def)

lemma capture_record:
  assumes "capture_case_details_automated W d c = (Some r, d')"
  shows "serial_number r = serial c \<and> case_court_name r = court_name c \<and>
         case_next_hearing_date r = next_hearing_date c \<and>
         (if fst (find_and_click_view_button W d (serial c))
          then status r = Completed else r = failed_case c)"
  using assms
  by (cases "find_and_click_view_button W d (serial c)")
     (auto simp: capture_case_details_automated_def Let_def failed_case_def
       split: if_splits prod.splits option.splits bool.splits)

lemma capture_raises:
  assumes "capture_case_details_automated W d c = (None, d')"
  shows "history_back W d' = None \<and> fst (find_and_click_view_button W d (serial c))"
  using assms
  by (cases "find_and_click_view_button W d (serial c)")
     (auto simp: capture_case_details_automated_def Let_def
       split: if_splits prod.splits option.splits bool.splits)


lemma perform_capture_step:
  assumes "perform_capture W ss = (out, ss')"
  shows "(out = Finished \<longrightarrow>
            \<not> current_case_index ss < length (matches ss) \<and>
            captured_cases ss' = captured_cases ss \<and> matches ss' = matches ss \<and>
            current_case_index ss' = current_case_index ss) \<and>
         (out = Raised \<longrightarrow>
            current_case_index ss < length (matches ss) \<and>
            captured_cases ss' = captured_cases ss \<and> matches ss' = matches ss \<and>
            current_case_index ss' = current_case_index ss \<and>
            (\<exists>d d'. driver ss = Some d \<and>
               capture_case_details_automated W d (matches ss ! current_case_index ss) = (None, d'))) \<and>
         (out = Rerun \<longrightarrow>
            current_case_index ss < length (matches ss) \<and>
            matches ss' = matches ss \<and>
            current_case_index ss' = current_case_index ss + 1 \<and>
            (\<exists>r. captured_cases ss' = captured_cases ss @ [r] \<and>
               (case driver ss of
                  None \<Rightarrow> r = failed_case (matches ss ! current_case_index ss)
                | Some d \<Rightarrow> \<exists>d'. capture_case_details_automated W d
                                   (matches ss ! current_case_index ss) = (Some r, d'))))"
  using assms
  by (auto simp: perform_capture_def Let_def split: if_splits option.splits prod.splits)

lemma capture_loop_trace:
  "capture_loop W ss = (out, ss') \<Longrightarrow>
     \<exists>n. (\<forall>j < n. fst (perform_capture W (((\<lambda>s. snd (perform_capture W s)) ^^ j) ss)) = Rerun) \<and>
         perform_capture W (((\<lambda>s. snd (perform_capture W s)) ^^ n) ss) = (out, ss') \<and>
         out \<noteq> Rerun"
proof (induction W ss arbitrary: out ss' rule: capture_loop.induct)
  case (1 W ss)
  let ?f = "\<lambda>s. snd (perform_capture W s)"
  obtain o1 s1 where pc: "perform_capture W ss = (o1, s1)"
    by (cases "perform_capture W ss") auto
  show ?case
  proof (cases "o1 = Rerun")
    case False
    with pc "1.prems" have "(o1, s1) = (out, ss')"
      by (cases o1) (simp_all add: capture_loop.simps [of W ss])
    with pc False show ?thesis
      by (intro exI [of _ 0]) simp
  next
    case True
    with pc "1.prems" have "capture_loop W s1 = (out, ss')"
      by (simp add: capture_loop.simps [of W ss])
    from "1.IH" [OF pc [symmetric] True this]
    obtain n where n: "\<forall>j < n. fst (perform_capture W ((?f ^^ j) s1)) = Rerun"
      "perform_capture W ((?f ^^ n) s1) = (out, ss')" "out \<noteq> Rerun"
      by blast
    have s1: "s1 = ?f ss" using pc by simp
    have "\<forall>j < Suc n. fst (perform_capture W ((?f ^^ j) ss)) = Rerun"
    proof (intro allI impI)
      fix j assume "j < Suc n"
      show "fst (perform_capture W ((?f ^^ j) ss)) = Rerun"
      proof (cases j)
        case 0
        with pc True show ?thesis by simp
      next
        case (Suc i)
        with \<open>j < Suc n\<close> n(1) have "fst (perform_capture W ((?f ^^ i) s1)) = Rerun" by simp
        moreover have "(?f ^^ Suc i) ss = (?f ^^ i) (?f ss)"
          by (simp only: funpow_Suc_right o_apply)
        ultimately show ?thesis using Suc s1 by (simp only:)
      qed
    qed
    moreover have "(?f ^^ Suc n) ss = (?f ^^ n) (?f ss)"
      by (simp only: funpow_Suc_right o_apply)
    then have "perform_capture W ((?f ^^ Suc n) ss) = (out, ss')"
      using n(2) s1 by (simp only:)
    ultimately show ?thesis using n(3) by blast
  qed
qed

lemma capture_steps:
  assumes "\<forall>j < n. fst (perform_capture W (((\<lambda>s. snd (perform_capture W s)) ^^ j) ss)) = Rerun"
  shows "current_case_index (((\<lambda>s. snd (perform_capture W s)) ^^ n) ss) = current_case_index ss + n \<and>
         matches (((\<lambda>s. snd (perform_capture W s)) ^^ n) ss) = matches ss \<and>
         (\<exists>rs. length rs = n \<and>
            captured_cases (((\<lambda>s. snd (perform_capture W s)) ^^ n) ss) = captured_cases ss @ rs \<and>
            (\<forall>k < n. case driver (((\<lambda>s. snd (perform_capture W s)) ^^ k) ss) of
                 None \<Rightarrow> rs ! k = failed_case (matches ss ! (current_case_index ss + k))
               | Some d \<Rightarrow> \<exists>d'. capture_case_details_automated W d
                                 (matches ss ! (current_case_index ss + k)) = (Some (rs ! k), d')))"
  using assms
proof (induction n)
  case 0
  then show ?case by simp
next
  case (Suc n)
  let ?f = "\<lambda>s. snd (perform_capture W s)"
  let ?t = "(?f ^^ n) ss"
  from Suc.prems have prev: "\<forall>j < n. fst (perform_capture W ((?f ^^ j) ss)) = Rerun" by simp
  from Suc.IH [OF prev] obtain rs where
    idx: "current_case_index ?t = current_case_index ss + n" and
    m: "matches ?t = matches ss" and
    len: "length rs = n" and
    cap: "captured_cases ?t = captured_cases ss @ rs" and
    recs: "\<forall>k < n. case driver ((?f ^^ k) ss) of
                 None \<Rightarrow> rs ! k = failed_case (matches ss ! (current_case_index ss + k))
               | Some d \<Rightarrow> \<exists>d'. capture_case_details_automated W d
                                 (matches ss ! (current_case_index ss + k)) = (Some (rs ! k), d')"
    by blast
  from Suc.prems have "fst (perform_capture W ?t) = Rerun" by simp
  then have pc: "perform_capture W ?t = (Rerun, ?f ?t)"
    by (cases "perform_capture W ?t") simp
  from perform_capture_step [OF pc] obtain r where
    idx': "current_case_index (?f ?t) = current_case_index ?t + 1" and
    m': "matches (?f ?t) = matches ?t" and
    cap': "captured_cases (?f ?t) = captured_cases ?t @ [r]" and
    rec: "case driver ?t of
            None \<Rightarrow> r = failed_case (matches ?t ! current_case_index ?t)
          | Some d \<Rightarrow> \<exists>d'. capture_case_details_automated W d
                            (matches ?t ! current_case_index ?t) = (Some r, d')"
    by auto
  have "\<forall>k < Suc n. case driver ((?f ^^ k) ss) of
                 None \<Rightarrow> (rs @ [r]) ! k = failed_case (matches ss ! (current_case_index ss + k))
               | Some d \<Rightarrow> \<exists>d'. capture_case_details_automated W d
                                 (matches ss ! (current_case_index ss + k)) = (Some ((rs @ [r]) ! k), d')"
  proof (intro allI impI)
    fix k assume k: "k < Suc n"
    show "case driver ((?f ^^ k) ss) of
                 None \<Rightarrow> (rs @ [r]) ! k = failed_case (matches ss ! (current_case_index ss + k))
               | Some d \<Rightarrow> \<exists>d'. capture_case_details_automated W d
                                 (matches ss ! (current_case_index ss + k)) = (Some ((rs @ [r]) ! k), d')"
    proof (cases "k < n")
      case True
      with recs have "case driver ((?f ^^ k) ss) of
                 None \<Rightarrow> rs ! k = failed_case (matches ss ! (current_case_index ss + k))
               | Some d \<Rightarrow> \<exists>d'. capture_case_details_automated W d
                                 (matches ss ! (current_case_index ss + k)) = (Some (rs ! k), d')"
        by blast
      with True len show ?thesis by (auto simp: nth_append split: option.splits)
    next
      case False
      with k have "k = n" by simp
      with rec len idx m show ?thesis by (auto simp: nth_append split: option.splits)
    qed
  qed
  with idx idx' m m' len cap cap' show ?case
    by (intro conjI exI [of _ "rs @ [r]"]) simp_all
qed


lemma capture_loop_summary:
  assumes start: "current_case_index ss = 0" "captured_cases ss = []"
    and res: "capture_loop W ss = (out, ss')"
  shows "out \<noteq> Rerun \<and>
         length (captured_cases ss') \<le> length (matches ss) \<and>
         (out = Finished \<longrightarrow> length (captured_cases ss') = length (matches ss)) \<and>
         (out = Raised \<longrightarrow> (\<exists>d. history_back W d = None)) \<and>
         (\<forall>k < length (captured_cases ss').
            serial_number (captured_cases ss' ! k) = serial (matches ss ! k) \<and>
            case_court_name (captured_cases ss' ! k) = court_name (matches ss ! k) \<and>
            case_next_hearing_date (captured_cases ss' ! k) = next_hearing_date (matches ss ! k) \<and>
            (case driver (((\<lambda>s. snd (perform_capture W s)) ^^ k) ss) of
               None \<Rightarrow> captured_cases ss' ! k = failed_case (matches ss ! k)
             | Some d \<Rightarrow>
                 if fst (find_and_click_view_button W d (serial (matches ss ! k)))
                 then status (captured_cases ss' ! k) = Completed
                 else captured_cases ss' ! k = failed_case (matches ss ! k)))"
proof -
  let ?f = "\<lambda>s. snd (perform_capture W s)"
  from capture_loop_trace [OF res] obtain n where
    reruns: "\<forall>j < n. fst (perform_capture W ((?f ^^ j) ss)) = Rerun" and
    final: "perform_capture W ((?f ^^ n) ss) = (out, ss')" and
    out: "out \<noteq> Rerun"
    by blast
  let ?t = "(?f ^^ n) ss"
  from capture_steps [OF reruns] obtain rs where
    idx0: "current_case_index ?t = current_case_index ss + n" and
    m: "matches ?t = matches ss" and
    len: "length rs = n" and
    cap0: "captured_cases ?t = captured_cases ss @ rs" and
    recs0: "\<forall>k < n. case driver ((?f ^^ k) ss) of
                 None \<Rightarrow> rs ! k = failed_case (matches ss ! (current_case_index ss + k))
               | Some d \<Rightarrow> \<exists>d'. capture_case_details_automated W d
                                 (matches ss ! (current_case_index ss + k)) = (Some (rs ! k), d')"
    by blast
  from idx0 cap0 start have idx: "current_case_index ?t = n" and cap: "captured_cases ?t = rs"
    by simp_all
  from recs0 have recs: "\<forall>k < n. case driver ((?f ^^ k) ss) of
                 None \<Rightarrow> rs ! k = failed_case (matches ss ! k)
               | Some d \<Rightarrow> \<exists>d'. capture_case_details_automated W d (matches ss ! k) = (Some (rs ! k), d')"
    by (simp add: start cong: option.case_cong)
  from perform_capture_step [OF final] out idx m cap
  have cap': "captured_cases ss' = rs"
    and fin: "out = Finished \<longrightarrow> \<not> n < length (matches ss)"
    and rai: "out = Raised \<longrightarrow> (\<exists>d d'. capture_case_details_automated W d (matches ss ! n) = (None, d'))"
    by (cases out; auto)+
  have le: "n \<le> length (matches ss)"
  proof (cases n)
    case 0
    then show ?thesis by simp
  next
    case (Suc i)
    with reruns have "fst (perform_capture W ((?f ^^ i) ss)) = Rerun" by simp
    then have pc: "perform_capture W ((?f ^^ i) ss) = (Rerun, ?f ((?f ^^ i) ss))"
      by (cases "perform_capture W ((?f ^^ i) ss)") simp
    have "\<forall>j < i. fst (perform_capture W ((?f ^^ j) ss)) = Rerun"
      using reruns Suc by simp
    from capture_steps [OF this] start
    have "current_case_index ((?f ^^ i) ss) = i" "matches ((?f ^^ i) ss) = matches ss"
      by auto
    with perform_capture_step [OF pc] have "i < length (matches ss)" by simp
    with Suc show ?thesis by simp
  qed
  have raised: "out = Raised \<longrightarrow> (\<exists>d. history_back W d = None)"
  proof
    assume "out = Raised"
    with rai obtain d d' where
      "capture_case_details_automated W d (matches ss ! n) = (None, d')"
      by auto
    from capture_raises [OF this] show "\<exists>d. history_back W d = None"
      by (intro exI [of _ d']) simp
  qed
  have each: "serial_number (rs ! k) = serial (matches ss ! k) \<and>
            case_court_name (rs ! k) = court_name (matches ss ! k) \<and>
            case_next_hearing_date (rs ! k) = next_hearing_date (matches ss ! k) \<and>
            (case driver ((?f ^^ k) ss) of
               None \<Rightarrow> rs ! k = failed_case (matches ss ! k)
             | Some d \<Rightarrow>
                 if fst (find_and_click_view_button W d (serial (matches ss ! k)))
                 then status (rs ! k) = Completed
                 else rs ! k = failed_case (matches ss ! k))" if "k < n" for k
  proof (cases "driver ((?f ^^ k) ss)")
    case None
    with recs that have "rs ! k = failed_case (matches ss ! k)" by force
    with None show ?thesis by (simp add: failed_case_def)
  next
    case (Some d)
    with recs that obtain d' where
      "capture_case_details_automated W d (matches ss ! k) = (Some (rs ! k), d')"
      by force
    from capture_record [OF this] Some show ?thesis by simp
  qed
  have c2: "length (captured_cases ss') \<le> length (matches ss)"
    using cap' len le by simp
  have c3: "out = Finished \<longrightarrow> length (captured_cases ss') = length (matches ss)"
    using fin cap' len le by auto
  have c5: "\<forall>k < length (captured_cases ss').
            serial_number (captured_cases ss' ! k) = serial (matches ss ! k) \<and>
            case_court_name (captured_cases ss' ! k) = court_name (matches ss ! k) \<and>
            case_next_hearing_date (captured_cases ss' ! k) = next_hearing_date (matches ss ! k) \<and>
            (case driver ((?f ^^ k) ss) of
               None \<Rightarrow> captured_cases ss' ! k = failed_case (matches ss ! k)
             | Some d \<Rightarrow>
                 if fst (find_and_click_view_button W d (serial (matches ss ! k)))
                 then status (captured_cases ss' ! k) = Completed
                 else captured_cases ss' ! k = failed_case (matches ss ! k))"
    unfolding cap' len using each by blast
  show ?thesis
    using out c2 c3 raised c5 by (intro conjI)
qed






section \<open>Serial labels of the captured cases\<close>

text \<open>
  Claim C6 says that no two captured cases of a run share a serial label. The program takes
  the label of a row from the first cell of the row and never compares labels. On the site
  with two listing pages both pages show a case with serial 1; both rows pass the filter
  and both are captured, so the run ends with two records labelled 1.
\<close>

theorem serial_labels_unique_counterexample:
  "map serial_number (captured_cases (app_run two_page_site initial_state
      [(Initialize_Browser_Session, []), (Submit_CAPTCHA_and_Scrape, ''abc''),
       (Start_Automatic_Capture, [])])) = [''1'', ''1''] \<and>
   \<not> distinct (map serial_number (captured_cases (app_run two_page_site initial_state
      [(Initialize_Browser_Session, []), (Submit_CAPTCHA_and_Scrape, ''abc''),
       (Start_Automatic_Capture, [])])))"
  by (simp only: full_run, simp)

text \<open>
  Claim C6 as amended. The serial labels of the captured records are, in order, the serial
  labels of the filtered rows that were processed. So the captured labels are pairwise
  distinct whenever the labels of the filtered rows are, and when the capture ends normally
  the two lists of labels are equal.
\<close>

theorem captured_serials_are_row_serials:
  "map serial_number (captured_cases (snd (capture_loop W (capture_start d rows)))) =
     map serial (take (length (captured_cases (snd (capture_loop W (capture_start d rows))))) rows) \<and>
   (distinct (map serial rows) \<longrightarrow>
      distinct (map serial_number (captured_cases (snd (capture_loop W (capture_start d rows)))))) \<and>
   (fst (capture_loop W (capture_start d rows)) = Finished \<longrightarrow>
      map serial_number (captured_cases (snd (capture_loop W (capture_start d rows)))) = map serial rows)"
proof -
  obtain out ss' where res: "capture_loop W (capture_start d rows) = (out, ss')"
    by (cases "capture_loop W (capture_start d rows)") auto
  have start: "current_case_index (capture_start d rows) = 0" "captured_cases (capture_start d rows) = []"
    and m: "matches (capture_start d rows) = rows"
    by (simp_all add: capture_start_def initial_state_def)
  note sum = capture_loop_summary [OF start res, unfolded m]
  let ?caps = "captured_cases ss'"
  from sum have le: "length ?caps \<le> length rows"
    and fin: "out = Finished \<longrightarrow> length ?caps = length rows"
    and each: "\<forall>k < length ?caps. serial_number (?caps ! k) = serial (rows ! k)"
    by blast+
  have eq: "map serial_number ?caps = map serial (take (length ?caps) rows)"
    using le each by (intro nth_equalityI) auto
  have "distinct (map serial_number ?caps)" if "distinct (map serial rows)"
  proof -
    from that have "distinct (take (length ?caps) (map serial rows))"
      by (rule distinct_take)
    then show ?thesis by (simp add: eq take_map)
  qed
  moreover have "map serial_number ?caps = map serial rows" if "out = Finished"
    using eq fin that by simp
  ultimately show ?thesis
    unfolding res fst_conv snd_conv using eq by blast
qed


theorem captured_serials_are_row_serials_witness:
  "map serial_number (captured_cases (snd (capture_loop court_site (capture_start 0
      [\<lparr>serial = ''1'', cols = [''1''], court_name = ''C'', next_hearing_date = Some 5\<rparr>,
       \<lparr>serial = ''2'', cols = [''2''], court_name = ''C'', next_hearing_date = Some 6\<rparr>])))) =
     [''1'', ''2''] \<and>
   distinct (map serial_number (captured_cases (snd (capture_loop court_site (capture_start 0
      [\<lparr>serial = ''1'', cols = [''1''], court_name = ''C'', next_hearing_date = Some 5\<rparr>,
       \<lparr>serial = ''2'', cols = [''2''], court_name = ''C'', next_hearing_date = Some 6\<rparr>])))))"
proof -
  let ?rows = "[\<lparr>serial = ''1'', cols = [''1''], court_name = ''C'', next_hearing_date = Some 5\<rparr>,
       \<lparr>serial = ''2'', cols = [''2''], court_name = ''C'', next_hearing_date = Some 6\<rparr>]"
  have fin: "fst (capture_loop court_site (capture_start 0 ?rows)) = Finished"
    by (simp add: court_site_run)
  have d: "distinct (map serial ?rows)"
    by simp
  from captured_serials_are_row_serials [of court_site 0 ?rows] fin
  have a: "map serial_number (captured_cases (snd (capture_loop court_site (capture_start 0 ?rows)))) =
      map serial ?rows"
    by blast
  from captured_serials_are_row_serials [of court_site 0 ?rows] d
  have b: "distinct (map serial_number (captured_cases (snd (capture_loop court_site (capture_start 0 ?rows)))))"
    by blast
  from a b show ?thesis by simp
qed

section \<open>The browser session of a run\<close>

lemma perform_capture_closed:
  "sessions_closed (snd (perform_capture W ss)) = sessions_closed ss \<and>
   sessions_opened (snd (perform_capture W ss)) = sessions_opened ss \<and>
   (driver ss \<noteq> None \<longrightarrow> driver (snd (perform_capture W ss)) \<noteq> None)"
  by (simp add: perform_capture_def Let_def split_beta split: option.splits)

lemma process_scraping_closed:
  "sessions_closed (snd (process_scraping W ss)) = sessions_closed ss \<and>
   sessions_opened (snd (process_scraping W ss)) = sessions_opened ss \<and>
   (driver ss \<noteq> None \<longrightarrow> driver (snd (process_scraping W ss)) \<noteq> None)"
  by (simp add: process_scraping_def Let_def split_beta split: option.splits)

lemma display_scraped_cases_closed:
  "sessions_closed (snd (display_scraped_cases clicked ss)) = sessions_closed ss \<and>
   sessions_opened (snd (display_scraped_cases clicked ss)) = sessions_opened ss \<and>
   driver (snd (display_scraped_cases clicked ss)) = driver ss"
  by (simp add: display_scraped_cases_def)

lemma scrape_cases_ui_closed:
  "sessions_closed (snd (scrape_cases_ui W clicked t ss)) = sessions_closed ss \<and>
   sessions_opened ss \<le> sessions_opened (snd (scrape_cases_ui W clicked t ss)) \<and>
   (driver ss \<noteq> None \<longrightarrow> driver (snd (scrape_cases_ui W clicked t ss)) \<noteq> None)"
  using perform_capture_closed [of W ss] process_scraping_closed [of W ss]
    display_scraped_cases_closed [of clicked ss]
  by (auto simp: scrape_cases_ui_def capture_cases_ui_def setup_driver_def Let_def
      split: option.splits)

lemma reruns_closed:
  "sessions_closed (snd (reruns W t ss)) = sessions_closed ss \<and>
   sessions_opened ss \<le> sessions_opened (snd (reruns W t ss)) \<and>
   (driver ss \<noteq> None \<longrightarrow> driver (snd (reruns W t ss)) \<noteq> None)"
proof (induction W t ss rule: reruns.induct)
  case (1 W t ss)
  obtain out s1 where r: "scrape_cases_ui W No_Click t ss = (out, s1)"
    by (cases "scrape_cases_ui W No_Click t ss") auto
  from scrape_cases_ui_closed [of W No_Click t ss] r
  have s1: "sessions_closed s1 = sessions_closed ss" "sessions_opened ss \<le> sessions_opened s1"
    "driver ss \<noteq> None \<longrightarrow> driver s1 \<noteq> None"
    by simp_all
  show ?case
  proof (cases out)
    case Rerun
    with r have "reruns W t ss = reruns W t s1"
      by (simp add: reruns.simps [of W t ss])
    with "1.IH" [OF r [symmetric] Rerun] s1 show ?thesis by auto
  next
    case Finished
    with r s1 show ?thesis by (simp add: reruns.simps [of W t ss])
  next
    case Raised
    with r s1 show ?thesis by (simp add: reruns.simps [of W t ss])
  qed
qed

lemma app_run_closed:
  "sessions_closed (app_run W ss actions) = sessions_closed ss \<and>
   sessions_opened ss \<le> sessions_opened (app_run W ss actions) \<and>
   (driver ss \<noteq> None \<longrightarrow> driver (app_run W ss actions) \<noteq> None)"
proof (induction actions arbitrary: ss)
  case Nil
  show ?case by simp
next
  case (Cons a actions)
  obtain clicked t where a: "a = (clicked, t)" by (cases a)
  obtain out s1 where r: "scrape_cases_ui W clicked t ss = (out, s1)"
    by (cases "scrape_cases_ui W clicked t ss") auto
  from scrape_cases_ui_closed [of W clicked t ss] r
  have s1: "sessions_closed s1 = sessions_closed ss" "sessions_opened ss \<le> sessions_opened s1"
    "driver ss \<noteq> None \<longrightarrow> driver s1 \<noteq> None"
    by simp_all
  show ?case
  proof (cases out)
    case Rerun
    with a r have "app_run W ss (a # actions) = app_run W (snd (reruns W t s1)) actions"
      by simp
    with Cons.IH [of "snd (reruns W t s1)"] reruns_closed [of W t s1] s1 show ?thesis
      by auto
  next
    case Finished
    with a r have "app_run W ss (a # actions) = app_run W s1 actions" by simp
    with Cons.IH [of s1] s1 show ?thesis by auto
  next
    case Raised
    with a r have "app_run W ss (a # actions) = app_run W s1 actions" by simp
    with Cons.IH [of s1] s1 show ?thesis by auto
  qed
qed


text \<open>
  Claim C5 says that the browser session is closed exactly once on every exit path. The
  program never calls \<^verbatim>\<open>quit()\<close> or \<^verbatim>\<open>close()\<close> on the driver. In the complete run
  on the site with two listing pages (the browser is started, the CAPTCHA is submitted, the
  two cases are captured and the capture ends) one session has been opened, none has been
  closed, and the driver is still in the session state when the run is over.
\<close>

theorem session_released_once_counterexample:
  "capture_in_progress (app_run two_page_site initial_state
      [(Initialize_Browser_Session, []), (Submit_CAPTCHA_and_Scrape, ''abc''),
       (Start_Automatic_Capture, [])]) = False \<and>
   length (captured_cases (app_run two_page_site initial_state
      [(Initialize_Browser_Session, []), (Submit_CAPTCHA_and_Scrape, ''abc''),
       (Start_Automatic_Capture, [])])) = 2 \<and>
   driver (app_run two_page_site initial_state
      [(Initialize_Browser_Session, []), (Submit_CAPTCHA_and_Scrape, ''abc''),
       (Start_Automatic_Capture, [])]) = Some 2 \<and>
   sessions_opened (app_run two_page_site initial_state
      [(Initialize_Browser_Session, []), (Submit_CAPTCHA_and_Scrape, ''abc''),
       (Start_Automatic_Capture, [])]) = 1 \<and>
   sessions_closed (app_run two_page_site initial_state
      [(Initialize_Browser_Session, []), (Submit_CAPTCHA_and_Scrape, ''abc''),
       (Start_Automatic_Capture, [])]) = 0"
  by (simp only: full_run, simp)

text \<open>
  Claim C5 as amended. No run of the script closes a browser session: whatever the user
  does and however the site behaves, the number of closed sessions stays what it was (0
  from the initial state), the number of opened sessions never decreases, and a driver
  stored in the session state stays stored there after success, failure or abort.
\<close>

theorem session_never_released:
  "sessions_closed (app_run W ss actions) = sessions_closed ss \<and>
   sessions_opened ss \<le> sessions_opened (app_run W ss actions) \<and>
   (driver ss \<noteq> None \<longrightarrow> driver (app_run W ss actions) \<noteq> None) \<and>
   sessions_closed (app_run W initial_state actions) = 0"
  using app_run_closed [of W ss actions] app_run_closed [of W initial_state actions]
  by (simp add: initial_state_def)



text \<open>
  With a session already open, another click on the button that starts the browser opens a
  second session; the first one is not closed.
\<close>

theorem session_never_released_witness:
  "driver (app_run two_page_site (initial_state\<lparr>driver := Some 0, sessions_opened := 1\<rparr>)
      [(Initialize_Browser_Session, [])]) \<noteq> None \<and>
   sessions_opened (app_run two_page_site (initial_state\<lparr>driver := Some 0, sessions_opened := 1\<rparr>)
      [(Initialize_Browser_Session, [])]) = 2 \<and>
   sessions_closed (app_run two_page_site (initial_state\<lparr>driver := Some 0, sessions_opened := 1\<rparr>)
      [(Initialize_Browser_Session, [])]) = 0"
proof -
  have "driver (initial_state\<lparr>driver := Some (0::nat), sessions_opened := 1\<rparr>) \<noteq> None"
    by simp
  with session_never_released [of two_page_site
      "initial_state\<lparr>driver := Some 0, sessions_opened := 1\<rparr>" "[(Initialize_Browser_Session, [])]"]
  have "driver (app_run two_page_site (initial_state\<lparr>driver := Some 0, sessions_opened := 1\<rparr>)
      [(Initialize_Browser_Session, [])]) \<noteq> None"
    and "sessions_closed (app_run two_page_site (initial_state\<lparr>driver := Some 0, sessions_opened := 1\<rparr>)
      [(Initialize_Browser_Session, [])]) = 0"
    by (simp_all add: initial_state_def)
  moreover have "sessions_opened (app_run two_page_site
      (initial_state\<lparr>driver := Some 0, sessions_opened := 1\<rparr>) [(Initialize_Browser_Session, [])]) = 2"
    by (simp add: run_defs reruns.simps two_page_site_sel)
  ultimately show ?thesis by simp
qed

section \<open>Rows of a listing page\<close>

lemma rows_loop_eq:
  "rows_loop du court trs acc =
     acc @ map (\<lambda>tr. \<lparr>serial = strip (hd (map (get_text '' '') (find_all [''td'', ''th''] tr))),
                       cols = map (get_text '' '') (find_all [''td'', ''th''] tr),
                       court_name = court,
                       next_hearing_date = row_hearing_date du (get_text '' '' tr)\<rparr>)
             (filter (\<lambda>tr. find_all [''td'', ''th''] tr \<noteq> []) trs)"
proof (induction trs arbitrary: acc)
  case Nil
  show ?case by simp
next
  case (Cons tr trs)
  show ?case
  proof (cases "find_all [''td'', ''th''] tr = []")
    case True
    with Cons.IH show ?thesis by (simp add: Let_def)
  next
    case False
    then obtain c cs where "find_all [''td'', ''th''] tr = c # cs"
      by (cases "find_all [''td'', ''th''] tr") auto
    with Cons.IH show ?thesis by (simp add: Let_def)
  qed
qed

text \<open>
  Claim C10. Without a table the extractor returns no row. With a table, the cell lists of
  the emitted rows are the non-empty cell lists of the table rows after the first one, in
  order: the first row of the table and the rows without cells are never emitted. Every
  emitted row carries as court name the text of the first \<^verbatim>\<open>h1\<close>, \<^verbatim>\<open>h2\<close> or
  \<^verbatim>\<open>h3\<close> tag of the page, or \<^verbatim>\<open>Unknown Court\<close> when the page has none.
\<close>

theorem extract_cases_from_soup_rows:
  "(soup_find [''table''] soup = None \<longrightarrow> extract_cases_from_soup du soup = []) \<and>
   (\<forall>table. soup_find [''table''] soup = Some table \<longrightarrow>
      map cols (extract_cases_from_soup du soup) =
        filter (\<lambda>cs. cs \<noteq> [])
          (map (\<lambda>tr. map (get_text '' '') (find_all [''td'', ''th''] tr))
             (drop 1 (find_all [''tr''] table))) \<and>
      length (extract_cases_from_soup du soup) \<le> length (find_all [''tr''] table) - 1) \<and>
   (\<forall>r \<in> set (extract_cases_from_soup du soup).
      cols r \<noteq> [] \<and>
      court_name r =
        (case soup_find [''h1'', ''h2'', ''h3''] soup of
           Some h \<Rightarrow> get_text [] h
         | None \<Rightarrow> ''Unknown Court''))"
proof (cases "soup_find [''table''] soup")
  case None
  then show ?thesis by (simp add: extract_cases_from_soup_def)
next
  case (Some table)
  let ?court = "case soup_find [''h1'', ''h2'', ''h3''] soup of
           Some h \<Rightarrow> get_text [] h | None \<Rightarrow> ''Unknown Court''"
  let ?trs = "drop 1 (find_all [''tr''] table)"
  have eq: "extract_cases_from_soup du soup =
     map (\<lambda>tr. \<lparr>serial = strip (hd (map (get_text '' '') (find_all [''td'', ''th''] tr))),
                 cols = map (get_text '' '') (find_all [''td'', ''th''] tr),
                 court_name = ?court,
                 next_hearing_date = row_hearing_date du (get_text '' '' tr)\<rparr>)
         (filter (\<lambda>tr. find_all [''td'', ''th''] tr \<noteq> []) ?trs)"
    using Some by (simp add: extract_cases_from_soup_def rows_loop_eq Let_def)
  have a: "map cols (extract_cases_from_soup du soup) =
        filter (\<lambda>cs. cs \<noteq> [])
          (map (\<lambda>tr. map (get_text '' '') (find_all [''td'', ''th''] tr)) ?trs)"
    unfolding eq by (simp add: filter_map o_def)
  have "length (extract_cases_from_soup du soup) \<le> length ?trs"
    unfolding eq length_map by (rule length_filter_le)
  then have b: "length (extract_cases_from_soup du soup) \<le> length (find_all [''tr''] table) - 1"
    by simp
  have c: "\<forall>r \<in> set (extract_cases_from_soup du soup). cols r \<noteq> [] \<and> court_name r = ?court"
    unfolding eq by auto
  from Some a b c show ?thesis by simp
qed


text \<open>
  An empty page gives no row; the page without a heading gives the one row with the cell 7
  and the court name \<^verbatim>\<open>Unknown Court\<close>; the listing page of the example site gives its
  one case with the court name of its heading.
\<close>

theorem extract_cases_from_soup_rows_witness:
  "extract_cases_from_soup None (Tag ''[document]'' [] []) = [] \<and>
   map cols (extract_cases_from_soup None unnamed_page) = [[''7'']] \<and>
   map court_name (extract_cases_from_soup None unnamed_page) = [''Unknown Court''] \<and>
   map court_name
     (extract_cases_from_soup
        (Some (\<lambda>dayfirst s. if dayfirst \<and> s = ''12/05/2024'' then Some 739018 else None))
        listing_page) = [''District Court'']"
proof -
  have n: "soup_find [''table''] (Tag ''[document]'' [] []) = None"
    by code_simp
  from extract_cases_from_soup_rows [of "Tag ''[document]'' [] []" None] n
  have a: "extract_cases_from_soup None (Tag ''[document]'' [] []) = []"
    by blast
  have t: "soup_find [''table''] unnamed_page =
      Some (Tag ''table'' []
          [Tag ''tr'' [] [Tag ''th'' [] [NavigableString ''Sr'']],
           Tag ''tr'' [] [],
           Tag ''tr'' [] [Tag ''td'' [] [NavigableString '' 7 '']]])"
    by code_simp
  from extract_cases_from_soup_rows [of unnamed_page None] t
  have "map cols (extract_cases_from_soup None unnamed_page) =
        filter (\<lambda>cs. cs \<noteq> [])
          (map (\<lambda>tr. map (get_text '' '') (find_all [''td'', ''th''] tr))
             (drop 1 (find_all [''tr'']
                (Tag ''table'' []
                  [Tag ''tr'' [] [Tag ''th'' [] [NavigableString ''Sr'']],
                   Tag ''tr'' [] [],
                   Tag ''tr'' [] [Tag ''td'' [] [NavigableString '' 7 '']]]))))"
    by blast
  also have "\<dots> = [[''7'']]"
    by code_simp
  finally have b: "map cols (extract_cases_from_soup None unnamed_page) = [[''7'']]" .
  have c: "map court_name (extract_cases_from_soup None unnamed_page) = [''Unknown Court'']"
    by code_simp
  have d: "map court_name
     (extract_cases_from_soup
        (Some (\<lambda>dayfirst s. if dayfirst \<and> s = ''12/05/2024'' then Some 739018 else None))
        listing_page) = [''District Court'']"
    by (simp add: listing_rows)
  from a b c d show ?thesis by simp
qed

end
